theory Spec2Isabelle
  imports Complex_Main "HOL-Library.Sublist"
begin

section \<open>The product manager of script.js\<close>

text \<open>
  The development embeds the class \<open>ProductManager\<close> of \<open>script.js\<close>: its fields
  are a record, every method is a function from the record to the updated record, and the
  parts of the browser the methods rely on (string primitives, \<open>parseFloat\<close>,
  \<open>parseInt\<close>, \<open>Date.now\<close>, \<open>setTimeout\<close>/\<open>clearTimeout\<close>,
  \<open>confirm\<close>) are written out next to them.
\<close>

subsection \<open>Strings\<close>

text \<open>
  A JavaScript string is a sequence of UTF-16 code units. A code unit is a natural number
  here (below 65536 in the program; no definition relies on the bound), and \<open>js\<close> turns
  a literal of this theory into the string of the codes of its characters.
\<close>

type_synonym jsstring = "nat list"

definition js :: "string \<Rightarrow> jsstring" where
  "js s = map of_char s"

text \<open>
  \<open>s.toLowerCase()\<close> is the default case conversion of Unicode: every code point is
  replaced by its lower-case mapping, which can be longer than one code point (U+0130), and
  capital sigma U+03A3 becomes final sigma U+03C2 where it is preceded by a cased letter
  and not followed by one, case-ignorable characters in between not counting, and small
  sigma U+03C3 elsewhere.

  The tables of the Unicode Character Database enter as an excerpt: the rows of Basic Latin
  and Latin-1 Supplement (U+0000..U+00FF), of the Greek letters U+0391..U+03CE, of the
  combining marks U+0300..U+036F and of U+0130. A code unit outside the excerpt is left as
  it is and counts as neither cased nor case-ignorable; so do the two halves of a surrogate
  pair, since no row beyond U+FFFF is in the excerpt. What is stated below about the case of
  letters is stated for strings of code units below 256 and for one Greek word of three
  capitals, where the excerpt is the table.
\<close>

definition lowerOf :: "nat \<Rightarrow> jsstring" where
  "lowerOf c =
     (if (65 \<le> c \<and> c \<le> 90) \<or> (192 \<le> c \<and> c \<le> 222 \<and> c \<noteq> 215)
         \<or> (913 \<le> c \<and> c \<le> 939 \<and> c \<noteq> 930)
      then [c + 32]
      else if c = 304 then [105, 775]
      else [c])"

definition cased :: "nat \<Rightarrow> bool" where
  "cased c =
     ((65 \<le> c \<and> c \<le> 90) \<or> (97 \<le> c \<and> c \<le> 122) \<or> c = 170 \<or> c = 181 \<or> c = 186
      \<or> (192 \<le> c \<and> c \<le> 255 \<and> c \<noteq> 215 \<and> c \<noteq> 247)
      \<or> c = 304 \<or> (913 \<le> c \<and> c \<le> 974 \<and> c \<noteq> 930))"

definition caseIgnorable :: "nat \<Rightarrow> bool" where
  "caseIgnorable c =
     (c = 39 \<or> c = 46 \<or> c = 58 \<or> c = 94 \<or> c = 96 \<or> c = 168 \<or> c = 173 \<or> c = 175
      \<or> c = 180 \<or> c = 183 \<or> c = 184 \<or> (768 \<le> c \<and> c \<le> 879))"

text \<open>
  Next to a sigma, in one direction: a cased letter comes first, case-ignorable characters
  at most before it. For the text before the sigma the argument is that text reversed.
\<close>

fun casedNext :: "jsstring \<Rightarrow> bool" where
  "casedNext [] = False"
| "casedNext (c # cs) = (cased c \<or> (caseIgnorable c \<and> casedNext cs))"

text \<open>\<open>lowerFrom before rest\<close> lower-cases \<open>rest\<close>, which follows \<open>rev before\<close>.\<close>

fun lowerFrom :: "jsstring \<Rightarrow> jsstring \<Rightarrow> jsstring" where
  "lowerFrom before [] = []"
| "lowerFrom before (c # rest) =
     (if c = 931 then (if casedNext before \<and> \<not> casedNext rest then [962] else [963])
      else lowerOf c)
     @ lowerFrom (c # before) rest"

definition toLowerCase :: "jsstring \<Rightarrow> jsstring" where
  "toLowerCase s = lowerFrom [] s"

text \<open>
  The white space that \<open>trim\<close>, \<open>parseFloat\<close> and \<open>parseInt\<close> strip: TAB, LF, VT, FF,
  CR, the space separators (SP, NBSP, U+1680, U+2000..U+200A, U+202F, U+205F, U+3000), the
  line and paragraph separators U+2028 and U+2029, and U+FEFF.
\<close>

definition isWhiteSpace :: "nat \<Rightarrow> bool" where
  "isWhiteSpace c =
     ((9 \<le> c \<and> c \<le> 13) \<or> c = 32 \<or> c = 160 \<or> c = 5760 \<or> (8192 \<le> c \<and> c \<le> 8202)
      \<or> c = 8232 \<or> c = 8233 \<or> c = 8239 \<or> c = 8287 \<or> c = 12288 \<or> c = 65279)"

definition trimStart :: "jsstring \<Rightarrow> jsstring" where
  "trimStart s = dropWhile isWhiteSpace s"

definition trim :: "jsstring \<Rightarrow> jsstring" where
  "trim s = rev (dropWhile isWhiteSpace (rev (dropWhile isWhiteSpace s)))"

text \<open>\<open>s.includes(t)\<close>: \<open>t\<close> occurs in \<open>s\<close> at some position.\<close>

fun includesStr :: "jsstring \<Rightarrow> jsstring \<Rightarrow> bool" where
  "includesStr [] t = (t = [])"
| "includesStr (c # s) t = (prefix t (c # s) \<or> includesStr s t)"

subsection \<open>Numbers\<close>

text \<open>
  A JavaScript number is an IEEE binary64 value. The model keeps \<open>NaN\<close>, the two
  infinities and the finite values as exact rationals: \<open>toNumber\<close> takes the exact decimal
  value of a literal to zero where binary64 underflows to zero and to an infinity where it
  overflows, and leaves the 53-bit rounding of the values in between out; \<open>Num 0\<close> stands
  for both zeros. Every test the program makes on a number (\<open>isNaN\<close>, \<open>< 0\<close>,
  \<open>|| 0\<close>) reads only what the model keeps.
\<close>

datatype number = NaN | Infinity bool | Num rat

definition toNumber :: "rat \<Rightarrow> number" where
  "toNumber q =
     (if \<bar>q\<bar> \<le> 1 / 2 ^ 1075 then Num 0
      else if 2 ^ 1024 - 2 ^ 970 \<le> \<bar>q\<bar> then Infinity (q < 0)
      else Num q)"

definition isNaN :: "number \<Rightarrow> bool" where
  "isNaN x = (case x of NaN \<Rightarrow> True | _ \<Rightarrow> False)"

text \<open>\<open>x < 0\<close>.\<close>

definition lt0 :: "number \<Rightarrow> bool" where
  "lt0 x = (case x of NaN \<Rightarrow> False | Infinity neg \<Rightarrow> neg | Num q \<Rightarrow> q < 0)"

text \<open>\<open>x || 0\<close>: \<open>NaN\<close> and zero are falsy.\<close>

definition orZero :: "number \<Rightarrow> number" where
  "orZero x = (case x of NaN \<Rightarrow> Num 0 | _ \<Rightarrow> x)"

definition isDigit :: "nat \<Rightarrow> bool" where
  "isDigit c = (48 \<le> c \<and> c \<le> 57)"

definition digitValue :: "nat \<Rightarrow> nat" where
  "digitValue c = c - 48"

definition decimalValue :: "jsstring \<Rightarrow> nat" where
  "decimalValue ds = foldl (\<lambda>a c. 10 * a + digitValue c) 0 ds"

definition pow10 :: "int \<Rightarrow> rat" where
  "pow10 e = (if 0 \<le> e then 10 ^ nat e else 1 / 10 ^ nat (- e))"

text \<open>
  \<open>ExponentPart\<close> of a \<open>StrDecimalLiteral\<close>: \<open>e\<close> or \<open>E\<close>, an optional sign and at
  least one digit; anything else is not part of the literal and counts as exponent 0.
\<close>

definition exponentPart :: "jsstring \<Rightarrow> int" where
  "exponentPart s =
     (case s of
        [] \<Rightarrow> 0
      | c # r \<Rightarrow>
          if c = of_char CHR ''e'' \<or> c = of_char CHR ''E'' then
            (case r of
               [] \<Rightarrow> 0
             | d # r' \<Rightarrow>
                 if d = of_char CHR ''-'' then
                   (if takeWhile isDigit r' = [] then 0
                    else - int (decimalValue (takeWhile isDigit r')))
                 else if d = of_char CHR ''+'' then int (decimalValue (takeWhile isDigit r'))
                 else int (decimalValue (takeWhile isDigit r)))
          else 0)"

text \<open>
  \<open>parseFloat(s)\<close>: leading white space is skipped, the longest prefix that is a
  \<open>StrDecimalLiteral\<close> is read (sign, \<open>Infinity\<close> or digits with an optional fraction
  and exponent), and \<open>NaN\<close> is the result when there is none.
\<close>

definition unsignedFloat :: "jsstring \<Rightarrow> rat option" where
  "unsignedFloat s =
     (let ip = takeWhile isDigit s;
          r1 = dropWhile isDigit s;
          fp = (case r1 of [] \<Rightarrow> [] | c # r \<Rightarrow> if c = of_char CHR ''.'' then takeWhile isDigit r else []);
          r2 = (case r1 of [] \<Rightarrow> [] | c # r \<Rightarrow> if c = of_char CHR ''.'' then dropWhile isDigit r else r1)
      in if ip = [] \<and> fp = [] then None
         else Some ((of_nat (decimalValue ip) + of_nat (decimalValue fp) / 10 ^ length fp)
                    * pow10 (exponentPart r2)))"

definition signedLiteral :: "jsstring \<Rightarrow> bool \<times> jsstring" where
  "signedLiteral s =
     (case s of
        [] \<Rightarrow> (False, [])
      | c # r \<Rightarrow> if c = of_char CHR ''-'' then (True, r)
                 else if c = of_char CHR ''+'' then (False, r) else (False, s))"

definition parseFloat :: "jsstring \<Rightarrow> number" where
  "parseFloat s =
     (let (neg, r) = signedLiteral (trimStart s)
      in if prefix (js ''Infinity'') r then Infinity neg
         else (case unsignedFloat r of
                 None \<Rightarrow> NaN
               | Some q \<Rightarrow> toNumber (if neg then - q else q)))"

text \<open>
  \<open>parseInt(s)\<close> without a radix: leading white space and a sign are skipped, a prefix
  \<open>0x\<close> or \<open>0X\<close> selects radix 16, the longest run of digits of the radix is read, and
  \<open>NaN\<close> is the result when the run is empty.
\<close>

definition isHexDigit :: "nat \<Rightarrow> bool" where
  "isHexDigit c = ((48 \<le> c \<and> c \<le> 57) \<or> (65 \<le> c \<and> c \<le> 70) \<or> (97 \<le> c \<and> c \<le> 102))"

definition hexDigitValue :: "nat \<Rightarrow> nat" where
  "hexDigitValue c = (if c \<le> 57 then c - 48 else if c \<le> 70 then c - 55 else c - 87)"

definition hexValue :: "jsstring \<Rightarrow> nat" where
  "hexValue ds = foldl (\<lambda>a c. 16 * a + hexDigitValue c) 0 ds"

definition unsignedInt :: "jsstring \<Rightarrow> nat option" where
  "unsignedInt s =
     (if prefix (js ''0x'') s \<or> prefix (js ''0X'') s then
        (if takeWhile isHexDigit (drop 2 s) = [] then None
         else Some (hexValue (takeWhile isHexDigit (drop 2 s))))
      else if takeWhile isDigit s = [] then None
      else Some (decimalValue (takeWhile isDigit s)))"

definition parseInt :: "jsstring \<Rightarrow> number" where
  "parseInt s =
     (let (neg, r) = signedLiteral (trimStart s)
      in case unsignedInt r of
           None \<Rightarrow> NaN
         | Some n \<Rightarrow> toNumber (if neg then - of_nat n else of_nat n))"

text \<open>
  \<open>n.toString()\<close> for the integer that \<open>Date.now()\<close> returns: its decimal digits, with a
  minus sign when it is negative.
\<close>

fun digitsOf :: "nat \<Rightarrow> jsstring" where
  "digitsOf n = (if n < 10 then [48 + n] else digitsOf (n div 10) @ [48 + n mod 10])"

declare digitsOf.simps [simp del]

definition toString :: "int \<Rightarrow> jsstring" where
  "toString i = (if i < 0 then of_char CHR ''-'' # digitsOf (nat (- i)) else digitsOf (nat i))"

subsection \<open>Products, the manager's fields and the browser's side\<close>

text \<open>
  The object literal \<open>productData\<close> of \<open>handleFormSubmit\<close>. The fields \<open>id\<close> and
  \<open>image\<close> carry a prime, since HOL has constants of these names.
\<close>

record product =
  id' :: jsstring
  name :: jsstring
  price :: number
  category :: jsstring
  stock :: number
  description :: jsstring
  image' :: jsstring

text \<open>
  The object \<open>{products, total, totalPages}\<close> that \<open>getPaginatedProducts\<close> returns;
  its field \<open>products\<close> is \<open>pageProducts\<close> here, and \<open>total\<close> carries a prime.
\<close>

record paginated =
  pageProducts :: "product list"
  total' :: nat
  totalPages :: int

text \<open>
  The fields of \<open>ProductManager\<close>, followed by what the methods use of the browser:
  the time in milliseconds, the pending time-outs as pairs of handle and due time, the last
  handle that \<open>setTimeout\<close> gave out, and the trace of derived views that
  \<open>renderProducts\<close> wrote to the page. An absent \<open>editingId\<close> or
  \<open>debounceTimer\<close> (\<open>null\<close>) is \<open>None\<close>. The field \<open>itemsPerPage\<close> is assigned
  once, in the constructor, and is the constant below.
\<close>

record ProductManager =
  products :: "product list"
  currentView :: jsstring
  currentPage :: int
  searchTerm :: jsstring
  editingId :: "jsstring option"
  debounceTimer :: "nat option"
  clock :: nat
  timers :: "(nat \<times> nat) list"
  lastHandle :: nat
  rendered :: "paginated list"

definition itemsPerPage :: int where
  "itemsPerPage = 6"

subsection \<open>Filtering, pagination and rendering\<close>

definition getFilteredProducts :: "ProductManager \<Rightarrow> product list" where
  "getFilteredProducts s =
     (if searchTerm s = [] then products s
      else filter (\<lambda>product. includesStr (toLowerCase (name product)) (searchTerm s)) (products s))"

text \<open>
  \<open>xs.slice(start, end)\<close>: a negative index counts from the end, both indices are clamped
  to the array, and an empty range gives the empty array.
\<close>

definition slice :: "'a list \<Rightarrow> int \<Rightarrow> int \<Rightarrow> 'a list" where
  "slice xs start end' =
     (let len = int (length xs);
          k = (if start < 0 then max (len + start) 0 else min start len);
          final = (if end' < 0 then max (len + end') 0 else min end' len)
      in take (nat (final - k)) (drop (nat k) xs))"

definition getPaginatedProducts :: "ProductManager \<Rightarrow> paginated" where
  "getPaginatedProducts s =
     (let filtered = getFilteredProducts s;
          startIndex = (currentPage s - 1) * itemsPerPage;
          endIndex = startIndex + itemsPerPage
      in \<lparr> pageProducts = slice filtered startIndex endIndex,
           total' = length filtered,
           totalPages = \<lceil>rat_of_nat (length filtered) / rat_of_int itemsPerPage\<rceil> \<rparr>)"

text \<open>
  \<open>renderProducts\<close> computes the derived view and writes it to the page; it assigns no
  field of the manager. The markup is left out: the trace records the view that was written.
\<close>

definition renderProducts :: "ProductManager \<Rightarrow> ProductManager" where
  "renderProducts s = s\<lparr>rendered := rendered s @ [getPaginatedProducts s]\<rparr>"

definition switchView :: "ProductManager \<Rightarrow> jsstring \<Rightarrow> ProductManager" where
  "switchView s view = renderProducts (s\<lparr>currentView := view\<rparr>)"

definition changePage :: "ProductManager \<Rightarrow> int \<Rightarrow> ProductManager" where
  "changePage s page =
     (if 1 \<le> page \<and> page \<le> totalPages (getPaginatedProducts s)
      then renderProducts (s\<lparr>currentPage := page\<rparr>)
      else s)"

subsection \<open>Search with debounce\<close>

text \<open>
  \<open>setTimeout\<close> gives out a fresh handle, which is never 0, and queues the callback for
  the time \<open>delay\<close> from now; \<open>clearTimeout\<close> takes the handle off the queue and does
  nothing for a handle that is not pending. The only callback that touches the manager is
  the arrow function of \<open>handleSearch\<close>, here \<open>searchTimeout\<close>; the time-outs of
  \<open>showNotification\<close> remove a notification element and are not queued in the model.
\<close>

definition setTimeout :: "ProductManager \<Rightarrow> nat \<Rightarrow> nat \<times> ProductManager" where
  "setTimeout s delay =
     (lastHandle s + 1,
      s\<lparr>lastHandle := lastHandle s + 1,
        timers := timers s @ [(lastHandle s + 1, clock s + delay)]\<rparr>)"

definition clearTimeout :: "ProductManager \<Rightarrow> nat \<Rightarrow> ProductManager" where
  "clearTimeout s h = s\<lparr>timers := filter (\<lambda>t. fst t \<noteq> h) (timers s)\<rparr>"

definition searchTimeout :: "ProductManager \<Rightarrow> ProductManager" where
  "searchTimeout s = renderProducts (s\<lparr>currentPage := 1\<rparr>)"

definition handleSearch :: "ProductManager \<Rightarrow> jsstring \<Rightarrow> ProductManager" where
  "handleSearch s tm =
     (let s1 = s\<lparr>searchTerm := trim (toLowerCase tm)\<rparr>;
          s2 = (case debounceTimer s1 of
                  None \<Rightarrow> s1
                | Some h \<Rightarrow> if h \<noteq> 0 then clearTimeout s1 h else s1);
          (h, s3) = setTimeout s2 500
      in s3\<lparr>debounceTimer := Some h\<rparr>)"

text \<open>
  \<open>elapse d s\<close>: \<open>d\<close> milliseconds pass with no other event. The time-outs that are due
  by then leave the queue and their callbacks run; the callbacks are all \<open>searchTimeout\<close>,
  which reads neither the time nor the queue, so running it once per due time-out is running
  them in the order in which they are due.
\<close>

definition elapse :: "nat \<Rightarrow> ProductManager \<Rightarrow> ProductManager" where
  "elapse d s =
     (let now = clock s + d;
          due = filter (\<lambda>t. snd t \<le> now) (timers s)
      in (searchTimeout ^^ length due)
           (s\<lparr>clock := now, timers := filter (\<lambda>t. \<not> snd t \<le> now) (timers s)\<rparr>))"

subsection \<open>Form validation\<close>

text \<open>
  A form control as \<open>validateField\<close> reads it: its \<open>name\<close>, its \<open>value\<close> and whether
  it has the attribute \<open>required\<close>.
\<close>

record field =
  fieldName :: jsstring
  fieldValue :: jsstring
  required :: bool

definition getFieldLabel :: "jsstring \<Rightarrow> jsstring" where
  "getFieldLabel fieldName' =
     (if fieldName' = js ''name'' then js ''Name''
      else if fieldName' = js ''price'' then js ''Price''
      else if fieldName' = js ''category'' then js ''Category''
      else if fieldName' = js ''stock'' then js ''Stock''
      else if fieldName' = js ''description'' then js ''Description''
      else fieldName')"

text \<open>
  \<open>validateField\<close> returns \<open>false\<close> after writing a message to the field's error
  element, or \<open>true\<close>: here \<open>Some\<close> of the message, or \<open>None\<close>.
\<close>

definition validateField :: "field \<Rightarrow> jsstring option" where
  "validateField fld =
     (let v = trim (fieldValue fld)
      in if required fld \<and> v = [] then Some (getFieldLabel (fieldName fld) @ js '' is required'')
         else if fieldName fld = js ''price'' \<and> v \<noteq> []
                 \<and> (isNaN (parseFloat v) \<or> lt0 (parseFloat v))
         then Some (js ''Price must be a valid positive number'')
         else if fieldName fld = js ''stock'' \<and> v \<noteq> []
                 \<and> (isNaN (parseInt v) \<or> lt0 (parseInt v))
         then Some (js ''Stock must be a valid non-negative integer'')
         else None)"

text \<open>The values of the controls of the product form, as \<open>FormData\<close> hands them out.\<close>

record formValues =
  nameValue :: jsstring
  priceValue :: jsstring
  categoryValue :: jsstring
  stockValue :: jsstring
  descriptionValue :: jsstring

text \<open>
  Modelled from the spec: the controls of \<open>#product-form\<close> in \<open>index.html\<close>, which is
  not among the sources. The form has the controls name, price, category, stock and
  description, and the first four carry \<open>required\<close>.
\<close>

definition formFields :: "formValues \<Rightarrow> field list" where
  "formFields f =
     [\<lparr>fieldName = js ''name'', fieldValue = nameValue f, required = True\<rparr>,
      \<lparr>fieldName = js ''price'', fieldValue = priceValue f, required = True\<rparr>,
      \<lparr>fieldName = js ''category'', fieldValue = categoryValue f, required = True\<rparr>,
      \<lparr>fieldName = js ''stock'', fieldValue = stockValue f, required = True\<rparr>,
      \<lparr>fieldName = js ''description'', fieldValue = descriptionValue f, required = False\<rparr>]"

text \<open>
  \<open>validateForm\<close> runs \<open>validateField\<close> on every required control, without stopping
  at the first failure.
\<close>

definition validateForm :: "formValues \<Rightarrow> bool" where
  "validateForm f =
     foldl (\<lambda>isValid fld. if validateField fld \<noteq> None then False else isValid) True
       (filter required (formFields f))"

subsection \<open>Adding, updating, deleting and editing\<close>

text \<open>\<open>xs.findIndex(P)\<close>: the first index whose element satisfies \<open>P\<close>, or \<open>-1\<close>.\<close>

fun findIndex :: "('a \<Rightarrow> bool) \<Rightarrow> 'a list \<Rightarrow> int" where
  "findIndex P [] = - 1"
| "findIndex P (x # xs) =
     (if P x then 0 else (let i = findIndex P xs in if i = - 1 then - 1 else i + 1))"

text \<open>
  \<open>showNotification\<close> and the writes to the form's elements change the page only and are
  left out of the methods below.
\<close>

definition addProduct :: "ProductManager \<Rightarrow> product \<Rightarrow> ProductManager" where
  "addProduct s product = renderProducts (s\<lparr>products := products s @ [product]\<rparr>)"

definition updateProduct :: "ProductManager \<Rightarrow> product \<Rightarrow> ProductManager" where
  "updateProduct s product =
     (let index = findIndex (\<lambda>p. id' p = id' product) (products s)
      in if index \<noteq> - 1
         then renderProducts (s\<lparr>products := (products s)[nat index := product]\<rparr>)
         else s)"

text \<open>The answer to \<open>confirm\<close> is the argument \<open>confirmed\<close>.\<close>

definition deleteProduct :: "ProductManager \<Rightarrow> jsstring \<Rightarrow> bool \<Rightarrow> ProductManager" where
  "deleteProduct s i confirmed =
     (if confirmed
      then renderProducts (s\<lparr>products := filter (\<lambda>p. id' p \<noteq> i) (products s)\<rparr>)
      else s)"

definition editProduct :: "ProductManager \<Rightarrow> jsstring \<Rightarrow> ProductManager" where
  "editProduct s i =
     (case find (\<lambda>p. id' p = i) (products s) of
        None \<Rightarrow> s
      | Some product \<Rightarrow> s\<lparr>editingId := Some i\<rparr>)"

definition resetForm :: "ProductManager \<Rightarrow> ProductManager" where
  "resetForm s = s\<lparr>editingId := None\<rparr>"

definition cancelEdit :: "ProductManager \<Rightarrow> ProductManager" where
  "cancelEdit s = resetForm (s\<lparr>editingId := None\<rparr>)"

text \<open>\<open>this.editingId\<close> as a condition: \<open>null\<close> and the empty string are falsy.\<close>

definition editing :: "ProductManager \<Rightarrow> bool" where
  "editing s = (case editingId s of None \<Rightarrow> False | Some e \<Rightarrow> e \<noteq> [])"

definition defaultImage :: jsstring where
  "defaultImage = js ''https://images.unsplash.com/photo-1633174524827-db00a6b7bc74?w=500&auto=format&fit=crop&q=60&ixlib=rb-4.1.0&ixid=M3wxMjA3fDB8MHxzZWFyY2h8M3x8YW1hem9ufGVufDB8fDB8fHww''"

text \<open>
  The object that \<open>handleFormSubmit\<close> builds from the form; \<open>now\<close> is what
  \<open>Date.now()\<close> returns.
\<close>

definition productData :: "ProductManager \<Rightarrow> formValues \<Rightarrow> int \<Rightarrow> product" where
  "productData s f now =
     \<lparr> id' = (case editingId s of
                None \<Rightarrow> toString now
              | Some e \<Rightarrow> if e \<noteq> [] then e else toString now),
       name = trim (nameValue f),
       price = parseFloat (priceValue f),
       category = categoryValue f,
       stock = orZero (parseInt (stockValue f)),
       description = trim (descriptionValue f),
       image' = defaultImage \<rparr>"

definition handleFormSubmit :: "ProductManager \<Rightarrow> formValues \<Rightarrow> int \<Rightarrow> ProductManager" where
  "handleFormSubmit s f now =
     (if \<not> validateForm f then s
      else resetForm (if editing s then updateProduct s (productData s f now)
                      else addProduct s (productData s f now)))"

subsection \<open>The constructor and the events of a session\<close>

text \<open>The constructor assigns the fields and, through \<open>init\<close>, renders once.\<close>

definition init :: ProductManager where
  "init =
     renderProducts
       \<lparr> products = [], currentView = js ''list'', currentPage = 1, searchTerm = [],
         editingId = None, debounceTimer = None,
         clock = 0, timers = [], lastHandle = 0, rendered = [] \<rparr>"

text \<open>
  What the listeners of \<open>setupEventListeners\<close> and the buttons of the rendered markup
  call, with the inputs they read (the form's values and the clock for a submit, the answer
  to \<open>confirm\<close> for a delete), and the passing of time.
\<close>

datatype event =
    Submit formValues int
  | Delete jsstring bool
  | Edit jsstring
  | CancelEdit
  | Search jsstring
  | ChangePage int
  | SwitchView jsstring
  | Elapse nat

fun step :: "ProductManager \<Rightarrow> event \<Rightarrow> ProductManager" where
  "step s (Submit f now) = handleFormSubmit s f now"
| "step s (Delete i confirmed) = deleteProduct s i confirmed"
| "step s (Edit i) = editProduct s i"
| "step s CancelEdit = cancelEdit s"
| "step s (Search tm) = handleSearch s tm"
| "step s (ChangePage page) = changePage s page"
| "step s (SwitchView view) = switchView s view"
| "step s (Elapse d) = elapse d s"

definition run :: "event list \<Rightarrow> ProductManager" where
  "run evs = foldl step init evs"

subsection \<open>Notions of the specification and sample data\<close>

text \<open>
  In the words of the specification: a name contains a term as a case-insensitive substring
  when some contiguous part of the name equals the term up to the case of the letters.
\<close>

definition containsIgnoringCase :: "jsstring \<Rightarrow> jsstring \<Rightarrow> bool" where
  "containsIgnoringCase nm tm = (\<exists>u \<in> set (sublists nm). toLowerCase u = toLowerCase tm)"

text \<open>
  A string of code units below 256, and the lower-case mapping of one such code unit.
\<close>

definition latin1 :: "jsstring \<Rightarrow> bool" where
  "latin1 s = list_all (\<lambda>c. c < 256) s"

definition toLowerChar :: "nat \<Rightarrow> nat" where
  "toLowerChar c = (if (65 \<le> c \<and> c \<le> 90) \<or> (192 \<le> c \<and> c \<le> 222 \<and> c \<noteq> 215) then c + 32 else c)"


text \<open>A catalogue of seven products, with the second page shown.\<close>

definition sampleProduct :: "string \<Rightarrow> string \<Rightarrow> product" where
  "sampleProduct i n =
     \<lparr> id' = js i, name = js n, price = Num 10, category = js ''Tools'', stock = Num 3,
       description = [], image' = defaultImage \<rparr>"

definition sampleProducts :: "product list" where
  "sampleProducts =
     [sampleProduct ''1001'' ''Widget'', sampleProduct ''1002'' ''Gadget'',
      sampleProduct ''1003'' ''Gizmo'', sampleProduct ''1004'' ''Bracket'',
      sampleProduct ''1005'' ''Washer'', sampleProduct ''1006'' ''Spanner'',
      sampleProduct ''1007'' ''Sprocket'']"

definition sampleState :: ProductManager where
  "sampleState =
     \<lparr> products = sampleProducts, currentView = js ''list'', currentPage = 2, searchTerm = [],
       editingId = None, debounceTimer = None,
       clock = 0, timers = [], lastHandle = 0, rendered = [] \<rparr>"

text \<open>A form as a user would fill it in.\<close>

definition sampleForm :: formValues where
  "sampleForm =
     \<lparr> nameValue = js ''Widget'', priceValue = js ''9.99'', categoryValue = js ''Tools'',
       stockValue = js ''3'', descriptionValue = [] \<rparr>"

text \<open>The clock readings of the submits of a session, in the order of the events.\<close>

fun submitTime :: "event \<Rightarrow> int list" where
  "submitTime (Submit f now) = [now]"
| "submitTime _ = []"

definition submitTimes :: "event list \<Rightarrow> int list" where
  "submitTimes evs = concat (map submitTime evs)"

text \<open>
  A burst of keystrokes in the search box: each pair is the time since the previous event
  and the content of the box after the keystroke.
\<close>

definition keystrokes :: "(nat \<times> jsstring) list \<Rightarrow> event list" where
  "keystrokes ks = concat (map (\<lambda>k. [Elapse (fst k), Search (snd k)]) ks)"

text \<open>
  At most one time-out is pending, and it is the one whose handle \<open>debounceTimer\<close> holds.
  Every state of a session is like that, has a current page of at least 1 and no product
  with the empty id (\<open>stateOk_run\<close> below).
\<close>

definition timersOk :: "ProductManager \<Rightarrow> bool" where
  "timersOk s =
     (case timers s of
        [] \<Rightarrow> True
      | t # ts \<Rightarrow> ts = [] \<and> debounceTimer s = Some (fst t) \<and> fst t \<noteq> 0)"

definition stateOk :: "ProductManager \<Rightarrow> bool" where
  "stateOk s = (timersOk s \<and> 1 \<le> currentPage s \<and> [] \<notin> id' ` set (products s))"

text \<open>Right after a keystroke: the one pending time-out is due 500 ms from now.\<close>

definition pending :: "ProductManager \<Rightarrow> bool" where
  "pending s = (\<exists>h. h \<noteq> 0 \<and> timers s = [(h, clock s + 500)] \<and> debounceTimer s = Some h)"

text \<open>
  A Greek name and a term that is its beginning: U+039F U+03A3 U+0391 (omicron, sigma,
  alpha in capitals) and U+039F U+03A3.
\<close>

definition greekName :: jsstring where
  "greekName = [927, 931, 913]"

definition greekTerm :: jsstring where
  "greekTerm = [927, 931]"

definition greekProduct :: product where
  "greekProduct = (sampleProduct ''1009'' []) \<lparr>name := greekName\<rparr>"

definition greekState :: ProductManager where
  "greekState = sampleState \<lparr>products := [greekProduct], currentPage := 1\<rparr>"

section \<open>Properties\<close>

subsection \<open>Pagination\<close>

lemma ceiling_sixth: "\<lceil>rat_of_nat n / rat_of_int itemsPerPage\<rceil> = (int n + 5) div 6"
proof -
  have "rat_of_nat n / rat_of_int itemsPerPage = of_int (int n) / of_int 6"
    by (simp add: itemsPerPage_def)
  then have "\<lceil>rat_of_nat n / rat_of_int itemsPerPage\<rceil> = - (- int n div 6)"
    by (simp only: ceiling_divide_eq_div)
  also have "\<dots> = (int n + 5) div 6" by presburger
  finally show ?thesis .
qed

lemma totalPages_div:
  "totalPages (getPaginatedProducts s) = (int (length (getFilteredProducts s)) + 5) div 6"
  by (simp add: getPaginatedProducts_def Let_def ceiling_sixth)

lemma total_length: "total' (getPaginatedProducts s) = length (getFilteredProducts s)"
  by (simp add: getPaginatedProducts_def Let_def)

lemma pageProducts_slice:
  "pageProducts (getPaginatedProducts s) =
     slice (getFilteredProducts s) ((currentPage s - 1) * 6) ((currentPage s - 1) * 6 + 6)"
  by (simp add: getPaginatedProducts_def Let_def itemsPerPage_def)

lemma filter_range_upt:
  "filter (\<lambda>i. a \<le> i \<and> i < b) [0..<n] = [min a n..<min b n]"
proof (induction n)
  case 0
  then show ?case by simp
next
  case (Suc n)
  consider "b \<le> n" | "b = Suc n" | "Suc n < b" by linarith
  then show ?case
  proof cases
    case 1
    with Suc show ?thesis by (auto simp: min_def)
  next
    case 2
    with Suc show ?thesis by (auto simp: min_def)
  next
    case 3
    with Suc show ?thesis by (auto simp: min_def)
  qed
qed

lemma take_drop_nth_upt:
  assumes "j \<le> length xs"
  shows "take (j - i) (drop i xs) = map ((!) xs) [i..<j]"
proof -
  have "take (j - i) (drop i xs) = take (j - i) (drop i (map ((!) xs) [0..<length xs]))"
    by (simp only: map_nth)
  also have "\<dots> = map ((!) xs) (take (j - i) [i..<length xs])"
    by (simp add: take_map drop_map)
  also have "take (j - i) [i..<length xs] = [i..<j]"
  proof (cases "i \<le> j")
    case True
    with assms have "i + (j - i) \<le> length xs" by simp
    then have "take (j - i) [i..<length xs] = [i..<i + (j - i)]" by (rule take_upt)
    with True show ?thesis by simp
  next
    case False
    then show ?thesis by simp
  qed
  finally show ?thesis .
qed

lemma slice_range:
  assumes "0 \<le> a" "a \<le> b"
  shows "slice xs a b = map ((!) xs) (filter (\<lambda>i. a \<le> int i \<and> int i < b) [0..<length xs])"
proof -
  have "(\<lambda>i. a \<le> int i \<and> int i < b) = (\<lambda>i. nat a \<le> i \<and> i < nat b)"
    using assms by auto
  then have "filter (\<lambda>i. a \<le> int i \<and> int i < b) [0..<length xs]
             = [min (nat a) (length xs)..<min (nat b) (length xs)]"
    by (simp add: filter_range_upt)
  moreover have "slice xs a b
      = take (min (nat b) (length xs) - min (nat a) (length xs)) (drop (min (nat a) (length xs)) xs)"
    using assms by (auto simp: slice_def Let_def min_def nat_diff_distrib nat_le_iff)
  ultimately show ?thesis
    by (simp add: take_drop_nth_upt)
qed

lemma slice_length:
  assumes "0 \<le> a" "a \<le> b"
  shows "int (length (slice xs a b)) = min b (int (length xs)) - min a (int (length xs))"
  using assms by (auto simp: slice_def Let_def min_def)

text \<open>
  Claim C3. In every state whose current page is at least 1 (the constructor, \<open>changePage\<close>
  and the search time-out assign no other page), the derived view counts the filtered
  products, its \<open>totalPages\<close> is the ceiling of that count over \<open>itemsPerPage\<close> and is
  zero exactly when the count is zero, and the visible slice is the filtered products at
  the indices from \<open>(page - 1) * itemsPerPage\<close> up to, and without,
  \<open>page * itemsPerPage\<close>. With seven products and an empty search term there are two
  pages, and page 2 holds one product.
\<close>

theorem paginated_view:
  assumes "1 \<le> currentPage s"
  shows "total' (getPaginatedProducts s) = length (getFilteredProducts s)
    \<and> totalPages (getPaginatedProducts s)
        = \<lceil>real (total' (getPaginatedProducts s)) / real_of_int itemsPerPage\<rceil>
    \<and> (totalPages (getPaginatedProducts s) = 0 \<longleftrightarrow> total' (getPaginatedProducts s) = 0)
    \<and> pageProducts (getPaginatedProducts s)
        = map ((!) (getFilteredProducts s))
            (filter (\<lambda>i. (currentPage s - 1) * itemsPerPage \<le> int i
                         \<and> int i < currentPage s * itemsPerPage)
               [0..<length (getFilteredProducts s)])
    \<and> (length (products s) = 7 \<and> searchTerm s = [] \<longrightarrow>
         totalPages (getPaginatedProducts s) = 2
         \<and> (currentPage s = 2 \<longrightarrow> length (pageProducts (getPaginatedProducts s)) = 1))"
proof -
  let ?n = "length (getFilteredProducts s)"
  have t: "total' (getPaginatedProducts s) = ?n"
    by (rule total_length)
  have "real ?n / real_of_int itemsPerPage = of_int (int ?n) / of_int 6"
    by (simp add: itemsPerPage_def)
  then have "\<lceil>real ?n / real_of_int itemsPerPage\<rceil> = - (- int ?n div 6)"
    by (simp only: ceiling_divide_eq_div)
  also have "\<dots> = (int ?n + 5) div 6" by presburger
  finally have c: "totalPages (getPaginatedProducts s) = \<lceil>real ?n / real_of_int itemsPerPage\<rceil>"
    by (simp add: totalPages_div)
  have z: "totalPages (getPaginatedProducts s) = 0 \<longleftrightarrow> ?n = 0"
    unfolding totalPages_div by presburger
  have r: "(currentPage s - 1) * 6 + 6 = currentPage s * 6" by simp
  have p: "pageProducts (getPaginatedProducts s)
        = map ((!) (getFilteredProducts s))
            (filter (\<lambda>i. (currentPage s - 1) * itemsPerPage \<le> int i
                         \<and> int i < currentPage s * itemsPerPage)
               [0..<?n])"
    unfolding pageProducts_slice itemsPerPage_def r [symmetric]
    using assms by (intro slice_range) simp_all
  have e: "totalPages (getPaginatedProducts s) = 2
         \<and> (currentPage s = 2 \<longrightarrow> length (pageProducts (getPaginatedProducts s)) = 1)"
    if "length (products s) = 7" "searchTerm s = []"
  proof -
    from that have n: "?n = 7" by (simp add: getFilteredProducts_def)
    then have "totalPages (getPaginatedProducts s) = 2" by (simp add: totalPages_div)
    moreover have "length (pageProducts (getPaginatedProducts s)) = 1" if "currentPage s = 2"
      using that n by (simp add: pageProducts_slice slice_def)
    ultimately show ?thesis by simp
  qed
  from t c z p e show ?thesis by simp
qed

text \<open>The sample catalogue on its second page: two pages, and the seventh product alone.\<close>

theorem paginated_view_witness:
  "1 \<le> currentPage sampleState
   \<and> total' (getPaginatedProducts sampleState) = 7
   \<and> totalPages (getPaginatedProducts sampleState) = 2
   \<and> pageProducts (getPaginatedProducts sampleState) = [sampleProduct ''1007'' ''Sprocket'']"
proof -
  have h: "1 \<le> currentPage sampleState" by (simp add: sampleState_def)
  have l: "length (products sampleState) = 7 \<and> searchTerm sampleState = []"
    by (simp add: sampleState_def sampleProducts_def)
  have f: "getFilteredProducts sampleState = sampleProducts"
    by (simp add: getFilteredProducts_def sampleState_def)
  have tp: "totalPages (getPaginatedProducts sampleState) = 2"
    using paginated_view [OF h] l by blast
  have tt: "total' (getPaginatedProducts sampleState) = 7"
    by (simp add: total_length f sampleProducts_def)
  have pp: "pageProducts (getPaginatedProducts sampleState) = [sampleProduct ''1007'' ''Sprocket'']"
    unfolding pageProducts_slice f
    by (simp add: slice_def sampleState_def sampleProducts_def)
  from h tt tp pp show ?thesis by simp
qed

subsection \<open>Changing the page\<close>

text \<open>
  Claim C4. \<open>changePage n\<close> makes \<open>n\<close> the current page when \<open>n\<close> lies between 1 and
  the \<open>totalPages\<close> of the current filtered set, and returns the state as it was, page
  included, when \<open>n\<close> is below 1 or above \<open>totalPages\<close>.
\<close>

theorem changePage_guard:
  "(1 \<le> n \<and> n \<le> totalPages (getPaginatedProducts s) \<longrightarrow> currentPage (changePage s n) = n)
   \<and> (n < 1 \<or> totalPages (getPaginatedProducts s) < n \<longrightarrow> changePage s n = s)"
  by (simp add: changePage_def renderProducts_def)

text \<open>On the sample catalogue page 1 is accepted; pages 3 and 0 are ignored.\<close>

theorem changePage_guard_witness:
  "currentPage (changePage sampleState 1) = 1
   \<and> changePage sampleState 3 = sampleState
   \<and> changePage sampleState 0 = sampleState"
proof -
  have f: "getFilteredProducts sampleState = sampleProducts"
    by (simp add: getFilteredProducts_def sampleState_def)
  have t: "totalPages (getPaginatedProducts sampleState) = 2"
    by (simp add: totalPages_div f sampleProducts_def)
  from t changePage_guard [of 1 sampleState] changePage_guard [of 3 sampleState]
    changePage_guard [of 0 sampleState]
  show ?thesis by simp
qed

subsection \<open>Literals\<close>

lemma js_eq_iff [simp]: "js a = js b \<longleftrightarrow> a = b"
proof -
  have "inj (of_char :: char \<Rightarrow> nat)" by (rule inj_of_char)
  then have "inj (map (of_char :: char \<Rightarrow> nat))" by (rule iffD2 [OF inj_map])
  then show ?thesis by (simp add: js_def inj_eq)
qed

lemma js_Nil_iff [simp]: "js a = [] \<longleftrightarrow> a = []" "[] = js a \<longleftrightarrow> a = []"
  by (auto simp: js_def)

subsection \<open>Filtering\<close>

lemma includesStr_sublist: "includesStr s t \<longleftrightarrow> sublist t s"
  by (induction s) (simp_all add: sublist_Cons_right)

lemma searchTerm_handleSearch: "searchTerm (handleSearch s tm) = trim (toLowerCase tm)"
  by (simp add: handleSearch_def Let_def setTimeout_def clearTimeout_def split: option.splits)

lemma products_handleSearch: "products (handleSearch s tm) = products s"
  by (simp add: handleSearch_def Let_def setTimeout_def clearTimeout_def split: option.splits)

lemma filter_stored_term:
  "getFilteredProducts s =
     (if searchTerm s = [] then products s
      else filter (\<lambda>p. sublist (searchTerm s) (toLowerCase (name p))) (products s))"
  by (simp add: getFilteredProducts_def includesStr_sublist)

text \<open>On code units below 256 lower-casing works code unit by code unit.\<close>

lemma lowerOf_latin1: "c < 256 \<Longrightarrow> lowerOf c = [toLowerChar c]"
  by (simp add: lowerOf_def toLowerChar_def)

lemma lowerFrom_latin1: "latin1 s \<Longrightarrow> lowerFrom before s = map toLowerChar s"
  by (induction s arbitrary: before) (simp_all add: latin1_def lowerOf_latin1)

lemma toLowerCase_latin1: "latin1 s \<Longrightarrow> toLowerCase s = map toLowerChar s"
  by (simp add: toLowerCase_def lowerFrom_latin1)

lemma isWhiteSpace_toLowerChar: "isWhiteSpace (toLowerChar c) = isWhiteSpace c"
  by (auto simp: isWhiteSpace_def toLowerChar_def)

lemma dropWhile_map_lower:
  "dropWhile isWhiteSpace (map toLowerChar s) = map toLowerChar (dropWhile isWhiteSpace s)"
  by (induction s) (simp_all add: isWhiteSpace_toLowerChar)

lemma trim_map_lower: "trim (map toLowerChar s) = map toLowerChar (trim s)"
  by (simp add: trim_def dropWhile_map_lower rev_map)

lemma latin1_subset: "set u \<subseteq> set s \<Longrightarrow> latin1 s \<Longrightarrow> latin1 u"
  by (auto simp: latin1_def list_all_iff)

lemma latin1_trim: "latin1 s \<Longrightarrow> latin1 (trim s)"
proof (rule latin1_subset)
  show "set (trim s) \<subseteq> set s"
  proof
    fix x
    assume "x \<in> set (trim s)"
    then have "x \<in> set (dropWhile isWhiteSpace (rev (dropWhile isWhiteSpace s)))"
      by (simp add: trim_def)
    then have "x \<in> set (rev (dropWhile isWhiteSpace s))"
      by (rule set_dropWhileD)
    then have "x \<in> set (dropWhile isWhiteSpace s)"
      by simp
    then show "x \<in> set s"
      by (rule set_dropWhileD)
  qed
qed

lemma latin1_sublist: "sublist u s \<Longrightarrow> latin1 s \<Longrightarrow> latin1 u"
  by (rule latin1_subset) (auto simp: sublist_def)

lemma includes_lower_latin1:
  assumes "latin1 nm" "latin1 t"
  shows "includesStr (toLowerCase nm) (toLowerCase t) \<longleftrightarrow> containsIgnoringCase nm t"
proof
  assume "includesStr (toLowerCase nm) (toLowerCase t)"
  then have "sublist (map toLowerChar t) (map toLowerChar nm)"
    by (simp add: includesStr_sublist toLowerCase_latin1 assms)
  then obtain u where u: "sublist u nm" "map toLowerChar t = map toLowerChar u"
    using sublist_map_rightE by blast
  from u(1) assms(1) have "latin1 u" by (rule latin1_sublist)
  with u(2) have "toLowerCase u = toLowerCase t"
    by (simp add: toLowerCase_latin1 assms)
  with u(1) show "containsIgnoringCase nm t"
    by (auto simp: containsIgnoringCase_def)
next
  assume "containsIgnoringCase nm t"
  then obtain u where u: "sublist u nm" "toLowerCase u = toLowerCase t"
    by (auto simp: containsIgnoringCase_def)
  from u(1) assms(1) have "latin1 u" by (rule latin1_sublist)
  with u(2) have "map toLowerChar u = map toLowerChar t"
    by (simp add: toLowerCase_latin1 assms)
  with map_mono_sublist [OF u(1), of toLowerChar]
  show "includesStr (toLowerCase nm) (toLowerCase t)"
    by (simp add: includesStr_sublist toLowerCase_latin1 assms)
qed

lemma filter_latin1:
  assumes "searchTerm s = trim (toLowerCase tm)" "latin1 tm"
    and "\<forall>p \<in> set (products s). latin1 (name p)"
  shows "getFilteredProducts s =
     (if trim tm = [] then products s
      else filter (\<lambda>p. containsIgnoringCase (name p) (trim tm)) (products s))"
proof -
  have l: "latin1 (trim tm)"
    using assms(2) by (rule latin1_trim)
  have t: "trim (toLowerCase tm) = toLowerCase (trim tm)"
    by (simp add: toLowerCase_latin1 assms(2) l trim_map_lower)
  have e: "trim (toLowerCase tm) = [] \<longleftrightarrow> trim tm = []"
    by (simp add: t toLowerCase_latin1 l)
  have "includesStr (toLowerCase (name p)) (trim (toLowerCase tm))
        \<longleftrightarrow> containsIgnoringCase (name p) (trim tm)" if "p \<in> set (products s)" for p
    using that assms(3) l by (simp add: t includes_lower_latin1)
  then have "filter (\<lambda>p. includesStr (toLowerCase (name p)) (trim (toLowerCase tm))) (products s)
      = filter (\<lambda>p. containsIgnoringCase (name p) (trim tm)) (products s)"
    by (simp cong: filter_cong)
  then show ?thesis
    by (simp add: getFilteredProducts_def assms(1) e)
qed

lemma widget_terms:
  "sublist (trim (toLowerCase (js ''widget''))) (toLowerCase (js ''Widget''))"
  "sublist (trim (toLowerCase (js ''WID''))) (toLowerCase (js ''Widget''))"
  "sublist (trim (toLowerCase (js ''dget''))) (toLowerCase (js ''Widget''))"
  by (simp_all add: includesStr_sublist [symmetric] trim_def isWhiteSpace_def toLowerCase_def
      lowerOf_def js_def)

lemma greek_lower:
  "toLowerCase greekTerm = [959, 962]" "toLowerCase greekName = [959, 963, 945]"
  by (simp_all add: toLowerCase_def greekTerm_def greekName_def lowerOf_def cased_def
      caseIgnorable_def)

text \<open>
  Claim C5, as stated, fails: the name U+039F U+03A3 U+0391 begins with the term
  U+039F U+03A3, but the sigma of the term is lower-cased to a final sigma and the sigma of
  the name to a small sigma, and the filter drops the product.
\<close>

theorem filter_final_sigma_counterexample:
  "sublist greekTerm greekName
   \<and> containsIgnoringCase greekName (trim greekTerm)
   \<and> trim greekTerm \<noteq> []
   \<and> products greekState = [greekProduct]
   \<and> getFilteredProducts (handleSearch greekState greekTerm) = []"
proof -
  have t: "trim greekTerm = greekTerm" "trim [959, 962] = [959, 962]"
    by (simp_all add: trim_def greekTerm_def isWhiteSpace_def)
  have a: "sublist greekTerm greekName"
    by (simp add: includesStr_sublist [symmetric] greekTerm_def greekName_def)
  then have "greekTerm \<in> set (sublists greekName)" by simp
  then have b: "containsIgnoringCase greekName (trim greekTerm)"
    unfolding containsIgnoringCase_def t by (rule bexI [rotated]) simp
  have c: "trim greekTerm \<noteq> []"
    by (simp add: t) (simp add: greekTerm_def)
  have d: "products greekState = [greekProduct]"
    by (simp add: greekState_def)
  have "getFilteredProducts (handleSearch greekState greekTerm) = []"
    unfolding filter_stored_term searchTerm_handleSearch products_handleSearch d greek_lower t
    by (simp add: greekProduct_def greek_lower includesStr_sublist [symmetric])
  with a b c d show ?thesis by simp
qed

text \<open>
  Claim C5, amended. \<open>handleSearch\<close> stores the term lower-cased and trimmed. The filter
  step returns the whole collection when the stored term is empty, and otherwise exactly the
  products whose lower-cased name contains the stored term, in the order of the collection.
  When the term and the names are made of code units below 256, these are the whole
  collection when the trimmed term is empty, and otherwise exactly the products whose name
  contains the trimmed term as a case-insensitive substring. A product named \<open>Widget\<close>
  is matched by \<open>widget\<close>, \<open>WID\<close> and \<open>dget\<close>.
\<close>

theorem filter_by_stored_term:
  "searchTerm (handleSearch s0 tm) = trim (toLowerCase tm)
   \<and> getFilteredProducts s =
        (if searchTerm s = [] then products s
         else filter (\<lambda>p. sublist (searchTerm s) (toLowerCase (name p))) (products s))
   \<and> (searchTerm s = trim (toLowerCase tm) \<and> latin1 tm \<and> (\<forall>p \<in> set (products s). latin1 (name p))
        \<longrightarrow> getFilteredProducts s =
          (if trim tm = [] then products s
           else filter (\<lambda>p. containsIgnoringCase (name p) (trim tm)) (products s)))
   \<and> (p \<in> set (products s0) \<and> name p = js ''Widget'' \<longrightarrow>
        p \<in> set (getFilteredProducts (handleSearch s0 (js ''widget'')))
        \<and> p \<in> set (getFilteredProducts (handleSearch s0 (js ''WID'')))
        \<and> p \<in> set (getFilteredProducts (handleSearch s0 (js ''dget''))))"
proof -
  have w: "p \<in> set (getFilteredProducts (handleSearch s0 t))"
    if "p \<in> set (products s0)" "sublist (trim (toLowerCase t)) (toLowerCase (name p))" for t
    using that
    by (simp add: filter_stored_term searchTerm_handleSearch products_handleSearch)
  have x: "p \<in> set (getFilteredProducts (handleSearch s0 (js ''widget'')))
        \<and> p \<in> set (getFilteredProducts (handleSearch s0 (js ''WID'')))
        \<and> p \<in> set (getFilteredProducts (handleSearch s0 (js ''dget'')))"
    if h: "p \<in> set (products s0) \<and> name p = js ''Widget''"
  proof -
    from h have m: "p \<in> set (products s0)" and n: "name p = js ''Widget''" by simp_all
    show ?thesis
      by (intro conjI w m) (simp_all only: n widget_terms)
  qed
  have y: "getFilteredProducts s =
          (if trim tm = [] then products s
           else filter (\<lambda>p. containsIgnoringCase (name p) (trim tm)) (products s))"
    if h: "searchTerm s = trim (toLowerCase tm) \<and> latin1 tm \<and> (\<forall>p \<in> set (products s). latin1 (name p))"
    using h by (intro filter_latin1) simp_all
  show ?thesis
    by (rule conjI [OF searchTerm_handleSearch conjI [OF filter_stored_term
          conjI [OF impI [OF y] impI [OF x]]]])
qed

text \<open>Searching the sample catalogue for \<open>GET\<close> between blanks finds Widget and Gadget.\<close>

theorem filter_by_stored_term_witness:
  "getFilteredProducts (handleSearch sampleState (js '' GET ''))
     = [sampleProduct ''1001'' ''Widget'', sampleProduct ''1002'' ''Gadget'']
   \<and> sampleProduct ''1001'' ''Widget'' \<in> set (getFilteredProducts (handleSearch sampleState (js ''WID'')))"
proof -
  let ?s = "handleSearch sampleState (js '' GET '')"
  have t: "trim (js '' GET '') = js ''GET''"
    by (simp add: trim_def isWhiteSpace_def js_def)
  have p: "products ?s = sampleProducts"
    by (simp add: products_handleSearch sampleState_def)
  have l: "searchTerm ?s = trim (toLowerCase (js '' GET ''))
      \<and> latin1 (js '' GET '') \<and> (\<forall>p \<in> set (products ?s). latin1 (name p))"
    by (simp add: searchTerm_handleSearch p)
      (simp add: sampleProducts_def sampleProduct_def latin1_def js_def)
  have c: "filter (\<lambda>p. containsIgnoringCase (name p) (js ''GET'')) sampleProducts
      = [sampleProduct ''1001'' ''Widget'', sampleProduct ''1002'' ''Gadget'']"
  proof -
    have "containsIgnoringCase (js n) (js ''GET'')
        \<longleftrightarrow> includesStr (toLowerCase (js n)) (toLowerCase (js ''GET''))" for n
      by (rule includes_lower_latin1 [symmetric]) (simp_all add: latin1_def js_def list_all_iff)
    then show ?thesis
      by (simp add: sampleProducts_def sampleProduct_def)
        (simp add: toLowerCase_def lowerOf_def js_def)
  qed
  note f = filter_by_stored_term [of sampleState "js '' GET ''" ?s "sampleProduct ''1001'' ''Widget''"]
  have a: "getFilteredProducts ?s
      = [sampleProduct ''1001'' ''Widget'', sampleProduct ''1002'' ''Gadget'']"
    using f [THEN conjunct2, THEN conjunct2, THEN conjunct1, THEN mp, OF l]
    by (simp add: t p c)
  have m: "sampleProduct ''1001'' ''Widget'' \<in> set (products sampleState)
      \<and> name (sampleProduct ''1001'' ''Widget'') = js ''Widget''"
    by (simp add: sampleState_def sampleProducts_def sampleProduct_def)
  have b: "sampleProduct ''1001'' ''Widget'' \<in> set (getFilteredProducts (handleSearch sampleState (js ''WID'')))"
    using f [THEN conjunct2, THEN conjunct2, THEN conjunct2, THEN mp, OF m] by simp
  from a b show ?thesis by (rule conjI)
qed


subsection \<open>Validation before a submit\<close>

lemma validateForm_iff:
  "validateForm f \<longleftrightarrow> (\<forall>fld \<in> set (filter required (formFields f)). validateField fld = None)"
proof -
  have "foldl (\<lambda>isValid fld. if validateField fld \<noteq> None then False else isValid) b fs
        \<longleftrightarrow> b \<and> (\<forall>fld \<in> set fs. validateField fld = None)" for b fs
    by (induction fs arbitrary: b) auto
  then show ?thesis by (simp add: validateForm_def)
qed

lemma validateField_optional:
  "fld \<in> set (formFields f) \<Longrightarrow> \<not> required fld \<Longrightarrow> validateField fld = None"
  by (auto simp: formFields_def validateField_def Let_def)

lemma validateForm_all:
  "validateForm f \<longleftrightarrow> (\<forall>fld \<in> set (formFields f). validateField fld = None)"
  unfolding validateForm_iff using validateField_optional by auto

lemma validateForm_explicit:
  "validateForm f \<longleftrightarrow>
     \<not> (trim (nameValue f) = [] \<or> trim (priceValue f) = []
        \<or> trim (categoryValue f) = [] \<or> trim (stockValue f) = []
        \<or> isNaN (parseFloat (trim (priceValue f))) \<or> lt0 (parseFloat (trim (priceValue f)))
        \<or> isNaN (parseInt (trim (stockValue f))) \<or> lt0 (parseInt (trim (stockValue f))))"
  unfolding validateForm_iff
  by (simp add: formFields_def validateField_def Let_def)

lemma parse_minus_five: "parseFloat (js ''-5'') = Num (- 5)"
  by (simp add: js_def parseFloat_def signedLiteral_def trimStart_def isWhiteSpace_def unsignedFloat_def
      isDigit_def decimalValue_def digitValue_def exponentPart_def pow10_def toNumber_def)

lemma trim_minus_five: "trim (js ''-5'') = (js ''-5'')"
  by (simp add: trim_def isWhiteSpace_def js_def)

text \<open>
  Claim C6. A submit is rejected, and the state returned as it was, when \<open>validateField\<close>
  fails on any control of the form: when the name, price, category or stock is blank after
  trimming, when the price does not parse or parses to a negative number, or when the stock
  does not parse or parses to a negative number. A draft with the price \<open>-5\<close> fails on
  the price field, and the state is unchanged.
\<close>

theorem invalid_submit_rejected:
  "((\<exists>fld \<in> set (formFields f). validateField fld \<noteq> None) \<longrightarrow> handleFormSubmit s f now = s)
   \<and> (trim (nameValue f) = [] \<or> trim (priceValue f) = []
        \<or> trim (categoryValue f) = [] \<or> trim (stockValue f) = []
        \<or> isNaN (parseFloat (trim (priceValue f))) \<or> lt0 (parseFloat (trim (priceValue f)))
        \<or> isNaN (parseInt (trim (stockValue f))) \<or> lt0 (parseInt (trim (stockValue f)))
       \<longrightarrow> handleFormSubmit s f now = s)
   \<and> (priceValue f = (js ''-5'') \<longrightarrow>
        validateField \<lparr>fieldName = (js ''price''), fieldValue = priceValue f, required = True\<rparr>
          = Some (js ''Price must be a valid positive number'')
        \<and> handleFormSubmit s f now = s)"
proof -
  have a: "handleFormSubmit s f now = s" if "\<exists>fld \<in> set (formFields f). validateField fld \<noteq> None"
    using that by (simp add: handleFormSubmit_def validateForm_all)
  have b: "handleFormSubmit s f now = s"
    if "trim (nameValue f) = [] \<or> trim (priceValue f) = []
        \<or> trim (categoryValue f) = [] \<or> trim (stockValue f) = []
        \<or> isNaN (parseFloat (trim (priceValue f))) \<or> lt0 (parseFloat (trim (priceValue f)))
        \<or> isNaN (parseInt (trim (stockValue f))) \<or> lt0 (parseInt (trim (stockValue f)))"
    using that validateForm_explicit [of f] by (simp add: handleFormSubmit_def)
  have c: "validateField \<lparr>fieldName = (js ''price''), fieldValue = priceValue f, required = True\<rparr>
          = Some (js ''Price must be a valid positive number'')
        \<and> handleFormSubmit s f now = s" if p: "priceValue f = (js ''-5'')"
  proof -
    have "lt0 (parseFloat (trim (priceValue f)))"
      by (simp add: p trim_minus_five parse_minus_five lt0_def)
    then have "handleFormSubmit s f now = s"
      using b by blast
    moreover have "validateField \<lparr>fieldName = (js ''price''), fieldValue = priceValue f, required = True\<rparr>
          = Some (js ''Price must be a valid positive number'')"
      by (simp add: validateField_def p trim_minus_five parse_minus_five lt0_def)
    ultimately show ?thesis by simp
  qed
  from a b c show ?thesis by blast
qed

text \<open>The sample form with the price \<open>-5\<close>, and with a blank stock, is rejected.\<close>

theorem invalid_submit_rejected_witness:
  "handleFormSubmit sampleState (sampleForm\<lparr>priceValue := (js ''-5'')\<rparr>) 1008 = sampleState
   \<and> handleFormSubmit sampleState (sampleForm\<lparr>stockValue := (js ''  '')\<rparr>) 1008 = sampleState"
proof -
  have "priceValue (sampleForm\<lparr>priceValue := (js ''-5'')\<rparr>) = (js ''-5'')" by simp
  moreover have "trim (stockValue (sampleForm\<lparr>stockValue := (js ''  '')\<rparr>)) = []"
    by (simp add: trim_def isWhiteSpace_def js_def)
  ultimately show ?thesis
    using invalid_submit_rejected [of "sampleForm\<lparr>priceValue := (js ''-5'')\<rparr>" sampleState 1008]
      invalid_submit_rejected [of "sampleForm\<lparr>stockValue := (js ''  '')\<rparr>" sampleState 1008]
    by blast
qed

lemma validateForm_sampleForm: "validateForm sampleForm"
  unfolding validateForm_explicit
  by (simp add: sampleForm_def js_def trim_def isWhiteSpace_def parseFloat_def parseInt_def unsignedInt_def
      signedLiteral_def trimStart_def unsignedFloat_def isNaN_def
      isDigit_def decimalValue_def digitValue_def exponentPart_def pow10_def toNumber_def lt0_def)

subsection \<open>Editing\<close>

lemma findIndex_cases:
  "(findIndex P xs = - 1 \<and> (\<forall>x \<in> set xs. \<not> P x))
   \<or> (0 \<le> findIndex P xs \<and> nat (findIndex P xs) < length xs \<and> P (xs ! nat (findIndex P xs)))"
proof (induction xs)
  case Nil
  then show ?case by simp
next
  case (Cons x xs)
  then show ?case
    by (auto simp: Let_def nat_add_distrib)
qed

lemma ids_list_update:
  assumes "k < length xs" "id' (xs ! k) = id' p"
  shows "map id' (xs[k := p]) = map id' xs"
  using assms by (simp add: map_update list_update_same_conv)

lemma ids_updateProduct: "map id' (products (updateProduct s p)) = map id' (products s)"
  using findIndex_cases [of "\<lambda>q. id' q = id' p" "products s"]
  by (auto simp: updateProduct_def Let_def renderProducts_def ids_list_update)

lemma editProduct_cases:
  "editProduct s i = (if i \<in> id' ` set (products s) then s\<lparr>editingId := Some i\<rparr> else s)"
proof (cases "find (\<lambda>p. id' p = i) (products s)")
  case None
  then have "i \<notin> id' ` set (products s)"
    by (auto simp: find_None_iff)
  with None show ?thesis
    by (simp add: editProduct_def)
next
  case (Some a)
  then obtain k where "k < length (products s)" "id' (products s ! k) = i"
    unfolding find_Some_iff by auto
  then have "i \<in> id' ` set (products s)"
    using nth_mem by force
  with Some show ?thesis
    by (simp add: editProduct_def)
qed

text \<open>
  Claim C7. \<open>editProduct i\<close> returns the state as it was when no product has the id
  \<open>i\<close>, and otherwise only sets \<open>editingId\<close> to \<open>i\<close>. A submit that passes
  validation in that state, for an id that is not the empty string (no product has the empty
  id: an id is the decimal text of a clock reading), builds the product with the id \<open>i\<close>,
  calls \<open>updateProduct\<close> with it, replaces the first product of that id and keeps every
  id of the collection, and leaves \<open>editingId\<close> empty.
\<close>

theorem edit_then_submit:
  "(i \<notin> id' ` set (products s) \<longrightarrow> editProduct s i = s)
   \<and> (i \<in> id' ` set (products s) \<longrightarrow> editProduct s i = s\<lparr>editingId := Some i\<rparr>)
   \<and> (i \<in> id' ` set (products s) \<and> i \<noteq> [] \<and> validateForm f \<longrightarrow>
        id' (productData (editProduct s i) f now) = i
        \<and> handleFormSubmit (editProduct s i) f now
            = resetForm (updateProduct (editProduct s i) (productData (editProduct s i) f now))
        \<and> products (handleFormSubmit (editProduct s i) f now)
            = (products s)[nat (findIndex (\<lambda>p. id' p = i) (products s))
                 := productData (editProduct s i) f now]
        \<and> map id' (products (handleFormSubmit (editProduct s i) f now)) = map id' (products s)
        \<and> editingId (handleFormSubmit (editProduct s i) f now) = None)"
proof -
  have c: "id' (productData (editProduct s i) f now) = i
        \<and> handleFormSubmit (editProduct s i) f now
            = resetForm (updateProduct (editProduct s i) (productData (editProduct s i) f now))
        \<and> products (handleFormSubmit (editProduct s i) f now)
            = (products s)[nat (findIndex (\<lambda>p. id' p = i) (products s))
                 := productData (editProduct s i) f now]
        \<and> map id' (products (handleFormSubmit (editProduct s i) f now)) = map id' (products s)
        \<and> editingId (handleFormSubmit (editProduct s i) f now) = None"
    if mnv: "i \<in> id' ` set (products s) \<and> i \<noteq> [] \<and> validateForm f"
  proof -
    from mnv have m: "i \<in> id' ` set (products s)" and n: "i \<noteq> []" and v: "validateForm f"
      by simp_all
    let ?e = "editProduct s i"
    have e: "?e = s\<lparr>editingId := Some i\<rparr>"
      using m by (simp add: editProduct_cases)
    have ed: "editing ?e" by (simp add: e editing_def n)
    have pid: "id' (productData ?e f now) = i"
      by (simp add: e productData_def n)
    have h: "handleFormSubmit ?e f now = resetForm (updateProduct ?e (productData ?e f now))"
      by (simp add: handleFormSubmit_def v ed)
    have "findIndex (\<lambda>p. id' p = i) (products s) \<noteq> - 1"
      using findIndex_cases [of "\<lambda>p. id' p = i" "products s"] m by auto
    then have u: "products (updateProduct ?e (productData ?e f now))
        = (products s)[nat (findIndex (\<lambda>p. id' p = i) (products s)) := productData ?e f now]"
      unfolding updateProduct_def pid by (simp add: e renderProducts_def Let_def)
    have "products (handleFormSubmit ?e f now) = products (updateProduct ?e (productData ?e f now))"
      by (simp add: h resetForm_def)
    moreover have "products ?e = products s"
      by (simp add: e)
    ultimately have i: "map id' (products (handleFormSubmit ?e f now)) = map id' (products s)"
      by (simp add: ids_updateProduct)
    from pid h u i show ?thesis by (simp add: resetForm_def)
  qed
  have a: "i \<notin> id' ` set (products s) \<longrightarrow> editProduct s i = s"
    by (simp add: editProduct_cases)
  have b: "i \<in> id' ` set (products s) \<longrightarrow> editProduct s i = s\<lparr>editingId := Some i\<rparr>"
    by (simp add: editProduct_cases)
  show ?thesis
    by (rule conjI [OF a conjI [OF b impI [OF c]]])
qed

text \<open>
  On the sample catalogue, editing an unknown id changes nothing; editing \<open>1002\<close> and
  submitting the sample form keeps the ids and ends the edit.
\<close>

theorem edit_then_submit_witness:
  "editProduct sampleState (js ''9999'') = sampleState
   \<and> editingId (editProduct sampleState (js ''1002'')) = Some (js ''1002'')
   \<and> map id' (products (handleFormSubmit (editProduct sampleState (js ''1002'')) sampleForm 2000))
        = map id' sampleProducts
   \<and> id' (productData (editProduct sampleState (js ''1002'')) sampleForm 2000) = (js ''1002'')
   \<and> editingId (handleFormSubmit (editProduct sampleState (js ''1002'')) sampleForm 2000) = None"
proof -
  have m: "(js ''1002'') \<in> id' ` set (products sampleState) \<and> (js ''1002'') \<noteq> [] \<and> validateForm sampleForm"
    by (simp add: sampleState_def sampleProducts_def sampleProduct_def validateForm_sampleForm)
  have n: "(js ''9999'') \<notin> id' ` set (products sampleState)"
    by (simp add: sampleState_def sampleProducts_def sampleProduct_def)
  have l: "products sampleState = sampleProducts"
    by (simp add: sampleState_def)
  have a: "editProduct sampleState (js ''9999'') = sampleState"
    by (rule edit_then_submit [of "(js ''9999'')" sampleState sampleForm 2000,
          THEN conjunct1, THEN mp, OF n])
  have b: "editProduct sampleState (js ''1002'') = sampleState\<lparr>editingId := Some (js ''1002'')\<rparr>"
    by (rule edit_then_submit [of "(js ''1002'')" sampleState sampleForm 2000,
          THEN conjunct2, THEN conjunct1, THEN mp, OF conjunct1 [OF m]])
  note t = edit_then_submit [of "(js ''1002'')" sampleState sampleForm 2000,
      THEN conjunct2, THEN conjunct2, THEN mp, OF m]
  note c1 = t [THEN conjunct1]
  note c4 = t [THEN conjunct2, THEN conjunct2, THEN conjunct2, THEN conjunct1]
  note c5 = t [THEN conjunct2, THEN conjunct2, THEN conjunct2, THEN conjunct2]
  have b': "editingId (editProduct sampleState (js ''1002'')) = Some (js ''1002'')"
    by (simp add: b)
  have c4': "map id' (products (handleFormSubmit (editProduct sampleState (js ''1002'')) sampleForm 2000))
      = map id' sampleProducts"
    using c4 by (simp only: l)
  show ?thesis
    by (rule conjI [OF a conjI [OF b' conjI [OF c4' conjI [OF c1 c5]]]])
qed

subsection \<open>Adding and deleting\<close>

lemma editing_resetForm: "\<not> editing (resetForm s)"
  by (simp add: editing_def resetForm_def)

lemma products_submit_add:
  assumes "validateForm f" "\<not> editing s"
  shows "products (handleFormSubmit s f now) = products s @ [productData s f now]"
  using assms by (simp add: handleFormSubmit_def addProduct_def resetForm_def renderProducts_def)

lemma id_productData_new:
  assumes "\<not> editing s"
  shows "id' (productData s f now) = toString now"
  using assms by (auto simp: productData_def editing_def split: option.splits)

lemma products_deleteProduct:
  "products (deleteProduct s i True) = filter (\<lambda>p. id' p \<noteq> i) (products s)"
  by (simp add: deleteProduct_def renderProducts_def)

lemma filter_fresh_id:
  assumes "i \<notin> id' ` set ps"
  shows "filter (\<lambda>p. id' p \<noteq> i) ps = ps"
  using assms by (induction ps) auto

text \<open>
  Claim C8, as stated, fails: when the clock reads the same millisecond at two submits, the
  second product gets the id of the first, and deleting that id removes both.
\<close>

theorem add_delete_same_clock_counterexample:
  "products (deleteProduct (handleFormSubmit (handleFormSubmit init sampleForm 1001) sampleForm 1001)
              (toString 1001) True)
   \<noteq> products (handleFormSubmit init sampleForm 1001)"
proof -
  let ?s1 = "handleFormSubmit init sampleForm 1001"
  have e0: "\<not> editing init"
    by (simp add: init_def editing_def renderProducts_def)
  have p0: "products init = []"
    by (simp add: init_def renderProducts_def)
  have e1: "\<not> editing ?s1"
    by (simp add: handleFormSubmit_def validateForm_sampleForm editing_resetForm)
  have p1: "products ?s1 = [productData init sampleForm 1001]"
    using products_submit_add [OF validateForm_sampleForm e0, of 1001] by (simp add: p0)
  have p2: "products (handleFormSubmit ?s1 sampleForm 1001)
      = [productData init sampleForm 1001, productData ?s1 sampleForm 1001]"
    using products_submit_add [OF validateForm_sampleForm e1, of 1001] by (simp add: p1)
  have "products (deleteProduct (handleFormSubmit ?s1 sampleForm 1001) (toString 1001) True) = []"
    unfolding products_deleteProduct p2
    by (simp add: id_productData_new [OF e0] id_productData_new [OF e1])
  then show ?thesis
    by (simp add: p1)
qed

text \<open>
  Claim C8, amended. Adding a product and then deleting, with the confirmation given, the id
  of that product restores the collection, provided no product of the collection already
  had that id; for a submit in create mode that is: provided the decimal text of the clock
  reading is not the id of a product already there.
\<close>

theorem add_delete_round_trip:
  "(id' p \<notin> id' ` set (products s) \<longrightarrow>
      products (deleteProduct (addProduct s p) (id' p) True) = products s)
   \<and> (validateForm f \<and> \<not> editing s \<and> toString now \<notin> id' ` set (products s) \<longrightarrow>
      products (deleteProduct (handleFormSubmit s f now) (toString now) True) = products s)"
proof -
  have a: "products (deleteProduct (addProduct s p) (id' p) True) = products s"
    if "id' p \<notin> id' ` set (products s)"
    using that by (simp add: products_deleteProduct addProduct_def renderProducts_def filter_fresh_id)
  have b: "products (deleteProduct (handleFormSubmit s f now) (toString now) True) = products s"
    if h: "validateForm f \<and> \<not> editing s \<and> toString now \<notin> id' ` set (products s)"
  proof -
    from h have "products (handleFormSubmit s f now) = products s @ [productData s f now]"
      by (simp add: products_submit_add)
    moreover from h have "id' (productData s f now) = toString now"
      by (simp add: id_productData_new)
    ultimately show ?thesis
      using h by (simp add: products_deleteProduct filter_fresh_id)
  qed
  show ?thesis
    by (rule conjI [OF impI [OF a] impI [OF b]])
qed

text \<open>Adding an eighth product to the sample catalogue and deleting it again.\<close>

theorem add_delete_round_trip_witness:
  "products (deleteProduct (addProduct sampleState (sampleProduct ''1008'' ''Flange'')) (js ''1008'') True)
     = sampleProducts
   \<and> products (deleteProduct (handleFormSubmit sampleState sampleForm 1008) (toString 1008) True)
     = sampleProducts"
proof -
  have t: "toString 1008 = (js ''1008'')"
    by (simp add: toString_def digitsOf.simps js_def)
  have i: "id' (sampleProduct ''1008'' ''Flange'') = (js ''1008'')"
    by (simp add: sampleProduct_def)
  have n: "(js ''1008'') \<notin> id' ` set (products sampleState)"
    by (simp add: sampleState_def sampleProducts_def sampleProduct_def)
  have e: "\<not> editing sampleState"
    by (simp add: editing_def sampleState_def)
  have l: "products sampleState = sampleProducts"
    by (simp add: sampleState_def)
  note r = add_delete_round_trip [of "sampleProduct ''1008'' ''Flange''" sampleState sampleForm 1008]
  have n': "id' (sampleProduct ''1008'' ''Flange'') \<notin> id' ` set (products sampleState)"
    using n by (simp add: i)
  have h: "validateForm sampleForm \<and> \<not> editing sampleState
      \<and> toString 1008 \<notin> id' ` set (products sampleState)"
    using validateForm_sampleForm e n by (simp add: t)
  have a: "products (deleteProduct (addProduct sampleState (sampleProduct ''1008'' ''Flange''))
             (id' (sampleProduct ''1008'' ''Flange'')) True) = products sampleState"
    by (rule r [THEN conjunct1, THEN mp, OF n'])
  have b: "products (deleteProduct (handleFormSubmit sampleState sampleForm 1008) (toString 1008) True)
      = products sampleState"
    by (rule r [THEN conjunct2, THEN mp, OF h])
  from a b show ?thesis by (simp add: i l)
qed

subsection \<open>What deleting and updating leave alone\<close>

lemma slice_beyond:
  assumes "int (length xs) \<le> a"
  shows "slice xs a b = []"
proof -
  have "0 \<le> a" using assms by linarith
  then show ?thesis
    using assms by (simp add: slice_def Let_def min_def)
qed

lemma deleteProduct_frame:
  "currentPage (deleteProduct s i c) = currentPage s
   \<and> searchTerm (deleteProduct s i c) = searchTerm s
   \<and> currentView (deleteProduct s i c) = currentView s"
  by (simp add: deleteProduct_def renderProducts_def)

lemma updateProduct_frame:
  "currentPage (updateProduct s p) = currentPage s
   \<and> searchTerm (updateProduct s p) = searchTerm s
   \<and> currentView (updateProduct s p) = currentView s"
  by (simp add: updateProduct_def renderProducts_def Let_def)

lemma beyond_last_page:
  assumes "totalPages (getPaginatedProducts s) < currentPage s"
  shows "pageProducts (getPaginatedProducts s) = []"
proof -
  from assms have "(int (length (getFilteredProducts s)) + 5) div 6 < currentPage s"
    by (simp add: totalPages_div)
  moreover have "n \<le> (q - 1) * 6" if "(n + 5) div 6 < q" for n q :: int
    using that by presburger
  ultimately have "int (length (getFilteredProducts s)) \<le> (currentPage s - 1) * 6"
    by blast
  then show ?thesis
    by (simp add: pageProducts_slice slice_beyond)
qed

text \<open>
  Claim C10. \<open>deleteProduct\<close> and \<open>updateProduct\<close> leave the current page, the search
  term and the view mode as they were. Whenever the current page exceeds \<open>totalPages\<close> the
  visible slice is empty, and a delete can bring that about: the sample catalogue shows
  page 2 of 2, and after deleting its seventh product it shows page 2 of 1.
\<close>

theorem delete_update_frame:
  "currentPage (deleteProduct s i c) = currentPage s
   \<and> searchTerm (deleteProduct s i c) = searchTerm s
   \<and> currentView (deleteProduct s i c) = currentView s
   \<and> currentPage (updateProduct s p) = currentPage s
   \<and> searchTerm (updateProduct s p) = searchTerm s
   \<and> currentView (updateProduct s p) = currentView s
   \<and> (totalPages (getPaginatedProducts s) < currentPage s \<longrightarrow>
        pageProducts (getPaginatedProducts s) = [])
   \<and> currentPage sampleState \<le> totalPages (getPaginatedProducts sampleState)
   \<and> totalPages (getPaginatedProducts (deleteProduct sampleState (js ''1007'') True))
        < currentPage (deleteProduct sampleState (js ''1007'') True)"
proof -
  have f: "getFilteredProducts sampleState = sampleProducts"
    by (simp add: getFilteredProducts_def sampleState_def)
  have x1: "currentPage sampleState \<le> totalPages (getPaginatedProducts sampleState)"
    by (simp add: totalPages_div f) (simp add: sampleState_def sampleProducts_def)
  have g: "length (getFilteredProducts (deleteProduct sampleState (js ''1007'') True)) = 6"
    by (simp add: getFilteredProducts_def deleteProduct_def renderProducts_def sampleState_def
        sampleProducts_def sampleProduct_def)
  have x2: "totalPages (getPaginatedProducts (deleteProduct sampleState (js ''1007'') True))
        < currentPage (deleteProduct sampleState (js ''1007'') True)"
    unfolding totalPages_div g conjunct1 [OF deleteProduct_frame]
    by (simp add: sampleState_def)
  from deleteProduct_frame [of s i c] updateProduct_frame [of s p] x1 x2 show ?thesis
    by (intro conjI impI) (simp_all add: beyond_last_page)
qed

text \<open>After that delete the sample catalogue still shows page 2, with nothing on it.\<close>

theorem delete_update_frame_witness:
  "pageProducts (getPaginatedProducts (deleteProduct sampleState (js ''1007'') True)) = []
   \<and> currentPage (deleteProduct sampleState (js ''1007'') True) = 2"
proof -
  note t = delete_update_frame [of "deleteProduct sampleState (js ''1007'') True" "(js ''1007'')" True
      "sampleProduct ''1007'' ''Sprocket''"]
  note fr = delete_update_frame [of sampleState "(js ''1007'')" True "sampleProduct ''1007'' ''Sprocket''"]
  have l: "totalPages (getPaginatedProducts (deleteProduct sampleState (js ''1007'') True))
        < currentPage (deleteProduct sampleState (js ''1007'') True)"
    using t by (elim conjE)
  have a: "pageProducts (getPaginatedProducts (deleteProduct sampleState (js ''1007'') True)) = []"
    using t l by (elim conjE) (erule (1) mp)
  have b: "currentPage (deleteProduct sampleState (js ''1007'') True) = 2"
    using fr [THEN conjunct1] by (simp add: sampleState_def)
  from a b show ?thesis by (rule conjI)
qed

subsection \<open>Ids\<close>

text \<open>The decimal text of an integer determines the integer, and is never empty.\<close>

lemma decimalValue_snoc: "decimalValue (ds @ [c]) = 10 * decimalValue ds + digitValue c"
  by (simp add: decimalValue_def)

lemma digitsOf_small: "n < 10 \<Longrightarrow> digitsOf n = [48 + n]"
  by (subst digitsOf.simps) simp

lemma digitsOf_large:
  "\<not> n < 10 \<Longrightarrow> digitsOf n = digitsOf (n div 10) @ [48 + n mod 10]"
  by (subst digitsOf.simps) simp

lemma digitValue_digit: "digitValue (48 + d) = d"
  by (simp add: digitValue_def)

lemma isDigit_digit: "d < 10 \<Longrightarrow> isDigit (48 + d)"
  by (simp add: isDigit_def)

lemma decimalValue_digitsOf: "decimalValue (digitsOf n) = n"
proof (induction n rule: digitsOf.induct)
  case (1 n)
  show ?case
  proof (cases "n < 10")
    case True
    then show ?thesis
      by (simp add: digitsOf_small decimalValue_def digitValue_digit)
  next
    case False
    have "decimalValue (digitsOf n) = 10 * decimalValue (digitsOf (n div 10)) + n mod 10"
      by (simp add: digitsOf_large [OF False] decimalValue_snoc digitValue_digit)
    also have "\<dots> = 10 * (n div 10) + n mod 10"
      using 1 [OF False] by simp
    finally show ?thesis by simp
  qed
qed

lemma digitsOf_isDigit: "c \<in> set (digitsOf n) \<Longrightarrow> isDigit c"
proof (induction n arbitrary: c rule: digitsOf.induct)
  case (1 n)
  show ?case
  proof (cases "n < 10")
    case True
    with 1(2) have "c = 48 + n"
      by (simp add: digitsOf_small)
    with True show ?thesis by (simp add: isDigit_digit)
  next
    case False
    with 1(2) have "c \<in> set (digitsOf (n div 10)) \<or> c = 48 + n mod 10"
      by (auto simp: digitsOf_large [OF False])
    then show ?thesis
    proof
      assume "c \<in> set (digitsOf (n div 10))"
      then show ?thesis by (rule 1(1) [OF False])
    next
      assume "c = 48 + n mod 10"
      then show ?thesis by (simp add: isDigit_digit)
    qed
  qed
qed

lemma digitsOf_nonempty: "digitsOf n \<noteq> []"
  by (cases "n < 10") (simp_all add: digitsOf_small digitsOf_large)

lemma toString_nonempty: "toString i \<noteq> []"
  by (simp add: toString_def digitsOf_nonempty)

lemma toString_inj: "toString i = toString j \<Longrightarrow> i = j"
proof -
  assume e: "toString i = toString j"
  have ne: "of_char CHR ''-'' # digitsOf a \<noteq> digitsOf b" for a b
  proof
    assume "of_char CHR ''-'' # digitsOf a = digitsOf b"
    then have "of_char CHR ''-'' \<in> set (digitsOf b)"
      using list.set_intros(1) [of "of_char CHR ''-''" "digitsOf a"] by simp
    then have "isDigit (of_char CHR ''-'')"
      by (rule digitsOf_isDigit)
    then show False
      by (simp add: isDigit_def)
  qed
  have inj: "a = b" if "digitsOf a = digitsOf b" for a b
  proof -
    from that have "decimalValue (digitsOf a) = decimalValue (digitsOf b)" by simp
    then show ?thesis by (simp only: decimalValue_digitsOf)
  qed
  show ?thesis
  proof (cases "i < 0")
    case True
    note i = this
    show ?thesis
    proof (cases "j < 0")
      case True
      with i e have "digitsOf (nat (- i)) = digitsOf (nat (- j))"
        by (simp add: toString_def)
      then have "nat (- i) = nat (- j)" by (rule inj)
      with i True show ?thesis by simp
    next
      case False
      with i e ne show ?thesis by (simp add: toString_def)
    qed
  next
    case False
    note i = this
    show ?thesis
    proof (cases "j < 0")
      case True
      with i e ne [of "nat (- j)" "nat i"] show ?thesis by (simp add: toString_def)
    next
      case False
      with i e have "digitsOf (nat i) = digitsOf (nat j)"
        by (simp add: toString_def)
      then have "nat i = nat j" by (rule inj)
      with i False show ?thesis by simp
    qed
  qed
qed

lemma products_renderProducts: "products (renderProducts s) = products s"
  by (simp add: renderProducts_def)

lemma products_searchTimeouts: "products ((searchTimeout ^^ n) s) = products s"
  by (induction n) (simp_all add: searchTimeout_def renderProducts_def)

lemma products_elapse: "products (elapse d s) = products s"
  by (simp add: elapse_def Let_def products_searchTimeouts)

lemma products_editProduct: "products (editProduct s i) = products s"
  by (simp add: editProduct_def split: option.splits)

lemma products_changePage: "products (changePage s n) = products s"
  by (simp add: changePage_def renderProducts_def)

lemma ids_submit:
  "map id' (products (handleFormSubmit s f now)) = map id' (products s)
   \<or> map id' (products (handleFormSubmit s f now)) = map id' (products s) @ [toString now]"
proof (cases "validateForm f")
  case False
  then show ?thesis by (simp add: handleFormSubmit_def)
next
  case True
  show ?thesis
  proof (cases "editing s")
    case True
    with \<open>validateForm f\<close> have "products (handleFormSubmit s f now)
        = products (updateProduct s (productData s f now))"
      by (simp add: handleFormSubmit_def resetForm_def)
    then show ?thesis by (simp add: ids_updateProduct)
  next
    case False
    with \<open>validateForm f\<close> show ?thesis
      by (simp add: products_submit_add id_productData_new)
  qed
qed

lemma ids_step:
  "set (map id' (products (step s ev))) \<subseteq> set (map id' (products s)) \<union> toString ` set (submitTime ev)"
proof (cases ev)
  case (Submit f now)
  let ?ids = "map id' (products (handleFormSubmit s f now))"
  from ids_submit [of s f now]
  have "set ?ids \<subseteq> set (map id' (products s)) \<union> {toString now}"
  proof
    assume e: "?ids = map id' (products s)"
    show ?thesis unfolding e by auto
  next
    assume e: "?ids = map id' (products s) @ [toString now]"
    show ?thesis unfolding e by auto
  qed
  with Submit show ?thesis by simp
next
  case (Delete i c)
  then show ?thesis by (auto simp: deleteProduct_def renderProducts_def)
next
  case (Edit i)
  then show ?thesis by (simp add: products_editProduct)
next
  case CancelEdit
  then show ?thesis by (simp add: cancelEdit_def resetForm_def)
next
  case (Search tm)
  then show ?thesis by (simp add: products_handleSearch)
next
  case (ChangePage n)
  then show ?thesis by (simp add: products_changePage)
next
  case (SwitchView v)
  then show ?thesis by (simp add: switchView_def renderProducts_def)
next
  case (Elapse d)
  then show ?thesis by (simp add: products_elapse)
qed

lemma distinct_step:
  assumes "distinct (map id' (products s))"
    and "\<forall>t \<in> set (submitTime ev). toString t \<notin> id' ` set (products s)"
  shows "distinct (map id' (products (step s ev)))"
proof (cases ev)
  case (Submit f now)
  with ids_submit [of s f now] assms show ?thesis by auto
next
  case (Delete i c)
  with assms(1) show ?thesis
    by (simp add: deleteProduct_def renderProducts_def distinct_map_filter)
next
  case (Edit i)
  with assms(1) show ?thesis by (simp add: products_editProduct)
next
  case CancelEdit
  with assms(1) show ?thesis by (simp add: cancelEdit_def resetForm_def)
next
  case (Search tm)
  with assms(1) show ?thesis by (simp add: products_handleSearch)
next
  case (ChangePage n)
  with assms(1) show ?thesis by (simp add: products_changePage)
next
  case (SwitchView v)
  with assms(1) show ?thesis by (simp add: switchView_def renderProducts_def)
next
  case (Elapse d)
  with assms(1) show ?thesis by (simp add: products_elapse)
qed

lemma distinct_foldl_step:
  assumes "distinct (map id' (products s))"
    and "distinct (submitTimes evs)"
    and "\<forall>t \<in> set (submitTimes evs). toString t \<notin> id' ` set (products s)"
  shows "distinct (map id' (products (foldl step s evs)))"
  using assms
proof (induction evs arbitrary: s)
  case Nil
  then show ?case by simp
next
  case (Cons ev evs)
  from Cons.prems(2) have d: "distinct (submitTimes evs)"
    and x: "set (submitTime ev) \<inter> set (submitTimes evs) = {}"
    by (simp_all add: submitTimes_def)
  from Cons.prems(3) have h: "\<forall>t \<in> set (submitTime ev). toString t \<notin> id' ` set (products s)"
    and r: "\<forall>t \<in> set (submitTimes evs). toString t \<notin> id' ` set (products s)"
    by (simp_all add: submitTimes_def)
  have a: "distinct (map id' (products (step s ev)))"
    using Cons.prems(1) h by (rule distinct_step)
  have b: "\<forall>t \<in> set (submitTimes evs). toString t \<notin> id' ` set (products (step s ev))"
  proof
    fix t
    assume t: "t \<in> set (submitTimes evs)"
    show "toString t \<notin> id' ` set (products (step s ev))"
    proof
      assume "toString t \<in> id' ` set (products (step s ev))"
      with ids_step [of s ev]
      have "toString t \<in> id' ` set (products s) \<or> toString t \<in> toString ` set (submitTime ev)"
        by auto
      then show False
      proof
        assume "toString t \<in> id' ` set (products s)"
        with r t show False by simp
      next
        assume "toString t \<in> toString ` set (submitTime ev)"
        then obtain u where "u \<in> set (submitTime ev)" "toString t = toString u" by auto
        then have "u \<in> set (submitTime ev)" "t = u" by (simp_all add: toString_inj)
        with x t show False by auto
      qed
    qed
  qed
  have "distinct (map id' (products (foldl step (step s ev) evs)))"
    using a d b by (rule Cons.IH)
  then show ?case by simp
qed

lemma products_init: "products init = []"
  by (simp add: init_def renderProducts_def)

lemma editing_init: "\<not> editing init"
  by (simp add: init_def editing_def renderProducts_def)

text \<open>
  Claim C1, as stated, fails: two submits that read the same millisecond off the clock leave
  two products with one id.
\<close>

theorem ids_clash_counterexample:
  "\<not> distinct (map id' (products (run [Submit sampleForm 1001, Submit sampleForm 1001])))"
proof -
  let ?s1 = "handleFormSubmit init sampleForm 1001"
  have e1: "\<not> editing ?s1"
    by (simp add: handleFormSubmit_def validateForm_sampleForm editing_resetForm)
  have "map id' (products (handleFormSubmit ?s1 sampleForm 1001)) = [toString 1001, toString 1001]"
    by (simp add: products_submit_add validateForm_sampleForm e1 editing_init products_init
        id_productData_new)
  then show ?thesis
    by (simp add: run_def)
qed

text \<open>
  Claim C1, amended. After every sequence of events from the constructor's state in which
  the submits read pairwise distinct values off the clock, the ids of the products in the
  collection are pairwise distinct.
\<close>

theorem ids_unique:
  assumes "distinct (submitTimes evs)"
  shows "distinct (map id' (products (run evs)))"
  unfolding run_def
  using _ assms by (rule distinct_foldl_step) (simp_all add: products_init)

text \<open>Two submits a millisecond apart, a search between them, and a delete.\<close>

theorem ids_unique_witness:
  "distinct (submitTimes [Submit sampleForm 1001, Search (js ''wid''), Submit sampleForm 1002, Delete (js ''1001'') True])
   \<and> map id' (products (run [Submit sampleForm 1001, Search (js ''wid''), Submit sampleForm 1002, Delete (js ''1001'') True]))
       = [(js ''1002'')]"
proof -
  let ?evs = "[Submit sampleForm 1001, Search (js ''wid''), Submit sampleForm 1002, Delete (js ''1001'') True]"
  have d: "distinct (submitTimes ?evs)"
    by (simp add: submitTimes_def)
  have u: "distinct (map id' (products (run ?evs)))"
    using d by (rule ids_unique)
  let ?s1 = "handleFormSubmit init sampleForm 1001"
  let ?s2 = "handleSearch ?s1 (js ''wid'')"
  let ?s3 = "handleFormSubmit ?s2 sampleForm 1002"
  have e1: "\<not> editing ?s1"
    by (simp add: handleFormSubmit_def validateForm_sampleForm editing_resetForm)
  have e2: "\<not> editing ?s2"
    using e1 by (simp add: editing_def handleSearch_def Let_def setTimeout_def clearTimeout_def
        split: option.splits)
  have t: "toString 1001 = (js ''1001'')" "toString 1002 = (js ''1002'')"
    by (simp_all add: toString_def digitsOf.simps js_def)
  have m: "map id' (products ?s3) = [(js ''1001''), (js ''1002'')]"
    by (simp add: products_submit_add validateForm_sampleForm e1 e2 editing_init products_init
        id_productData_new products_handleSearch t)
  have fm: "map id' (filter (\<lambda>p. id' p \<noteq> i) ps) = filter (\<lambda>x. x \<noteq> i) (map id' ps)" for i ps
    by (simp add: filter_map comp_def)
  have "map id' (products (run ?evs)) = map id' (filter (\<lambda>p. id' p \<noteq> (js ''1001'')) (products ?s3))"
    by (simp add: run_def products_deleteProduct)
  also have "\<dots> = filter (\<lambda>x. x \<noteq> (js ''1001'')) (map id' (products ?s3))"
    by (rule fm)
  also have "\<dots> = [(js ''1002'')]"
    unfolding m by simp
  finally have "map id' (products (run ?evs)) = [(js ''1002'')]" .
  with d u show ?thesis by simp
qed

subsection \<open>Search and its time-out\<close>

lemma searchTimeouts_frame:
  "products ((searchTimeout ^^ n) s) = products s
   \<and> searchTerm ((searchTimeout ^^ n) s) = searchTerm s
   \<and> debounceTimer ((searchTimeout ^^ n) s) = debounceTimer s
   \<and> timers ((searchTimeout ^^ n) s) = timers s
   \<and> clock ((searchTimeout ^^ n) s) = clock s"
  by (induction n) (simp_all add: searchTimeout_def renderProducts_def)

lemma currentPage_searchTimeouts:
  "currentPage ((searchTimeout ^^ n) s) = (if n = 0 then currentPage s else 1)"
  by (cases n) (simp_all add: searchTimeout_def renderProducts_def)

lemma handleSearch_frame:
  "products (handleSearch s tm) = products s
   \<and> currentPage (handleSearch s tm) = currentPage s
   \<and> rendered (handleSearch s tm) = rendered s
   \<and> clock (handleSearch s tm) = clock s
   \<and> searchTerm (handleSearch s tm) = trim (toLowerCase tm)
   \<and> debounceTimer (handleSearch s tm) = Some (lastHandle s + 1)"
  by (simp add: handleSearch_def Let_def setTimeout_def clearTimeout_def split: option.splits)

lemma timers_handleSearch_last:
  "\<exists>ts. timers (handleSearch s tm) = ts @ [(lastHandle s + 1, clock s + 500)]"
  by (simp add: handleSearch_def Let_def setTimeout_def clearTimeout_def split: option.splits)

lemma timers_handleSearch:
  assumes "timersOk s"
  shows "timers (handleSearch s tm) = [(lastHandle s + 1, clock s + 500)]"
proof (cases "timers s")
  case Nil
  then show ?thesis
    by (simp add: handleSearch_def Let_def setTimeout_def clearTimeout_def split: option.splits)
next
  case (Cons t ts)
  with assms have "ts = []" "debounceTimer s = Some (fst t)" "fst t \<noteq> 0"
    by (simp_all add: timersOk_def)
  with Cons show ?thesis
    by (simp add: handleSearch_def Let_def setTimeout_def clearTimeout_def)
qed

text \<open>
  Claim C2, as stated, fails: \<open>handleSearch\<close> stores the term at once and leaves the
  page as it is. The sample catalogue shows page 2; after the call for \<open>wid\<close> the page is
  still 2, and a switch of the view before the time-out renders the new term on the old
  page: one product matches, and the page shown is empty.
\<close>

theorem search_page_counterexample:
  "searchTerm (handleSearch sampleState (js ''wid'')) = js ''wid''
   \<and> currentPage (handleSearch sampleState (js ''wid'')) \<noteq> 1
   \<and> last (rendered (switchView (handleSearch sampleState (js ''wid'')) (js ''card'')))
       = \<lparr>pageProducts = [], total' = 1, totalPages = 1\<rparr>"
proof -
  let ?s = "handleSearch sampleState (js ''wid'')"
  have t: "trim (toLowerCase (js ''wid'')) = js ''wid''"
    by (simp add: trim_def isWhiteSpace_def toLowerCase_def lowerOf_def js_def)
  have a: "searchTerm ?s = js ''wid''"
    by (simp add: handleSearch_frame t)
  have b: "currentPage ?s = 2"
    by (simp add: handleSearch_frame sampleState_def)
  have p: "products ?s = sampleProducts"
    by (simp add: handleSearch_frame sampleState_def)
  have f: "getFilteredProducts (?s\<lparr>currentView := js ''card''\<rparr>) = [sampleProduct ''1001'' ''Widget'']"
    by (simp add: getFilteredProducts_def a p)
      (simp add: sampleProducts_def sampleProduct_def toLowerCase_def lowerOf_def js_def)
  have "getPaginatedProducts (?s\<lparr>currentView := js ''card''\<rparr>)
      = \<lparr>pageProducts = [], total' = 1, totalPages = 1\<rparr>"
    unfolding getPaginatedProducts_def Let_def f ceiling_sixth
    by (simp add: b slice_def itemsPerPage_def)
  then have c: "last (rendered (switchView ?s (js ''card'')))
      = \<lparr>pageProducts = [], total' = 1, totalPages = 1\<rparr>"
    by (simp add: switchView_def renderProducts_def)
  from a b c show ?thesis by simp
qed

text \<open>
  Claim C2, amended. Whatever the state and the term, once \<open>handleSearch\<close> has run and 500
  ms have passed with no other event, the time-out that it scheduled has applied the search:
  the current page is 1, and the search term is the given term in lower case and trimmed.
\<close>

theorem search_resets_page:
  assumes "500 \<le> d"
  shows "currentPage (elapse d (handleSearch s tm)) = 1
    \<and> searchTerm (elapse d (handleSearch s tm)) = trim (toLowerCase tm)"
proof -
  let ?s = "handleSearch s tm"
  obtain ts where ts: "timers ?s = ts @ [(lastHandle s + 1, clock s + 500)]"
    using timers_handleSearch_last by blast
  have c: "clock ?s = clock s"
    by (simp add: handleSearch_frame)
  have "filter (\<lambda>t. snd t \<le> clock ?s + d) (timers ?s) \<noteq> []"
    using assms by (simp add: ts c)
  then have "length (filter (\<lambda>t. snd t \<le> clock ?s + d) (timers ?s)) \<noteq> 0"
    by simp
  then have "currentPage (elapse d ?s) = 1"
    by (simp add: elapse_def Let_def currentPage_searchTimeouts)
  moreover have "searchTerm (elapse d ?s) = trim (toLowerCase tm)"
    by (simp add: elapse_def Let_def searchTimeouts_frame handleSearch_frame)
  ultimately show ?thesis by simp
qed

text \<open>The sample catalogue shows page 2; half a second after a search it shows page 1.\<close>

theorem search_resets_page_witness:
  "currentPage sampleState = 2
   \<and> currentPage (elapse 500 (handleSearch sampleState (js ''Wid''))) = 1
   \<and> searchTerm (elapse 500 (handleSearch sampleState (js ''Wid''))) = (js ''wid'')"
proof -
  have h: "(500::nat) \<le> 500" by simp
  have t: "trim (toLowerCase (js ''Wid'')) = (js ''wid'')"
    by (simp add: trim_def isWhiteSpace_def toLowerCase_def lowerOf_def js_def)
  have p: "currentPage sampleState = 2"
    by (simp add: sampleState_def)
  from search_resets_page [OF h, of sampleState "(js ''Wid'')"] p show ?thesis
    by (simp only: t simp_thms)
qed

lemma pending_handleSearch:
  assumes "timersOk s"
  shows "pending (handleSearch s tm)"
  unfolding pending_def
  by (simp add: timers_handleSearch [OF assms] handleSearch_frame)

lemma elapse_short:
  assumes "pending s" "d < 500"
  shows "elapse d s = s\<lparr>clock := clock s + d\<rparr>"
proof -
  from assms(1) obtain h where "timers s = [(h, clock s + 500)]"
    by (auto simp: pending_def)
  with assms(2) show ?thesis
    by (simp add: elapse_def Let_def)
qed

lemma timersOk_elapse_short:
  assumes "pending s" "d < 500"
  shows "timersOk (elapse d s)"
  using assms by (auto simp: elapse_short pending_def timersOk_def)

lemma getPaginatedProducts_cong:
  assumes "products a = products b" "searchTerm a = searchTerm b" "currentPage a = currentPage b"
  shows "getPaginatedProducts a = getPaginatedProducts b"
  using assms by (simp add: getPaginatedProducts_def getFilteredProducts_def)

lemma elapse_long:
  assumes "pending s" "500 \<le> d"
  shows "rendered (elapse d s) = rendered s @ [getPaginatedProducts (s\<lparr>currentPage := 1\<rparr>)]
    \<and> timers (elapse d s) = []"
proof -
  from assms(1) obtain h where "timers s = [(h, clock s + 500)]"
    by (auto simp: pending_def)
  with assms(2) have e: "elapse d s = searchTimeout (s\<lparr>clock := clock s + d, timers := []\<rparr>)"
    by (simp add: elapse_def Let_def)
  have "getPaginatedProducts (s\<lparr>clock := clock s + d, timers := [], currentPage := 1\<rparr>)
      = getPaginatedProducts (s\<lparr>currentPage := 1\<rparr>)"
    by (rule getPaginatedProducts_cong) simp_all
  then show ?thesis
    by (simp add: e searchTimeout_def renderProducts_def)
qed

lemma foldl_keystrokes_Cons:
  "foldl step s (keystrokes (k # ks)) = foldl step (handleSearch (elapse (fst k) s) (snd k)) (keystrokes ks)"
  by (simp add: keystrokes_def)

lemma typing_invariant:
  assumes "pending s" "\<forall>k \<in> set ks. fst k < 500"
  shows "pending (foldl step s (keystrokes ks))
    \<and> products (foldl step s (keystrokes ks)) = products s
    \<and> rendered (foldl step s (keystrokes ks)) = rendered s
    \<and> searchTerm (foldl step s (keystrokes ks))
        = (if ks = [] then searchTerm s else trim (toLowerCase (snd (last ks))))"
  using assms
proof (induction ks arbitrary: s)
  case Nil
  then show ?case by (simp add: keystrokes_def)
next
  case (Cons k ks)
  let ?s = "handleSearch (elapse (fst k) s) (snd k)"
  from Cons.prems have d: "fst k < 500" and r: "\<forall>k \<in> set ks. fst k < 500"
    by simp_all
  have e: "elapse (fst k) s = s\<lparr>clock := clock s + fst k\<rparr>"
    using Cons.prems(1) d by (rule elapse_short)
  have p: "pending ?s"
    using timersOk_elapse_short [OF Cons.prems(1) d] by (rule pending_handleSearch)
  have f: "products ?s = products s" "rendered ?s = rendered s"
    "searchTerm ?s = trim (toLowerCase (snd k))"
    by (simp_all add: handleSearch_frame e)
  from Cons.IH [OF p r] f show ?case
    by (simp add: foldl_keystrokes_Cons)
qed

text \<open>
  Claim C9. Take a state with at most the debounce time-out pending, a keystroke, and any
  number of further keystrokes each less than 500 ms after the one before. After them exactly
  one time-out is pending and nothing has been rendered; when 500 ms or more then pass, the
  page is rendered exactly once, with the term of the last keystroke and page 1, and no
  time-out is left.
\<close>

theorem debounce_last_wins:
  assumes "timersOk s" "\<forall>k \<in> set ks. fst k < 500" "500 \<le> d"
  shows "length (timers (foldl step (handleSearch s tm) (keystrokes ks))) = 1
    \<and> rendered (foldl step (handleSearch s tm) (keystrokes ks)) = rendered s
    \<and> rendered (elapse d (foldl step (handleSearch s tm) (keystrokes ks)))
        = rendered s @ [getPaginatedProducts
            (s\<lparr>searchTerm := trim (toLowerCase (last (tm # map snd ks))), currentPage := 1\<rparr>)]
    \<and> timers (elapse d (foldl step (handleSearch s tm) (keystrokes ks))) = []"
proof -
  let ?s = "foldl step (handleSearch s tm) (keystrokes ks)"
  have p0: "pending (handleSearch s tm)"
    using assms(1) by (rule pending_handleSearch)
  note i = typing_invariant [OF p0 assms(2)]
  from i have p: "pending ?s" by simp
  from i have pr: "products ?s = products s"
    by (simp add: handleSearch_frame)
  from i have r: "rendered ?s = rendered s"
    by (simp add: handleSearch_frame)
  from i have st: "searchTerm ?s = trim (toLowerCase (last (tm # map snd ks)))"
    by (simp add: handleSearch_frame last_map)
  from p have l: "length (timers ?s) = 1"
    by (auto simp: pending_def)
  have "getPaginatedProducts (?s\<lparr>currentPage := 1\<rparr>)
      = getPaginatedProducts
          (s\<lparr>searchTerm := trim (toLowerCase (last (tm # map snd ks))), currentPage := 1\<rparr>)"
    by (rule getPaginatedProducts_cong) (simp_all add: pr st)
  with elapse_long [OF p assms(3)] l r show ?thesis
    by simp
qed

text \<open>
  Typing \<open>a\<close>, \<open>ab\<close>, \<open>abc\<close> within a quarter of a second on the sample catalogue
  renders once, for \<open>abc\<close>.
\<close>

theorem debounce_last_wins_witness:
  "timersOk sampleState
   \<and> (100::nat) < 500 \<and> (150::nat) < 500 \<and> (500::nat) \<le> 500
   \<and> rendered (elapse 500 (foldl step (handleSearch sampleState (js ''a''))
          (keystrokes [(100, (js ''ab'')), (150, (js ''abc''))])))
       = [getPaginatedProducts (sampleState\<lparr>searchTerm := (js ''abc''), currentPage := 1\<rparr>)]"
proof -
  have a: "timersOk sampleState"
    by (simp add: timersOk_def sampleState_def)
  have b: "\<forall>k \<in> set [(100, (js ''ab'')), (150, (js ''abc''))]. fst k < (500::nat)"
    by simp
  have c: "(500::nat) \<le> 500" by simp
  have t: "trim (toLowerCase (last ((js ''a'') # map snd [(100::nat, (js ''ab'')), (150, (js ''abc''))]))) = (js ''abc'')"
    by (simp add: trim_def isWhiteSpace_def toLowerCase_def lowerOf_def js_def)
  have r: "rendered sampleState = []"
    by (simp add: sampleState_def)
  note d = debounce_last_wins [OF a b c, of "(js ''a'')", THEN conjunct2, THEN conjunct2, THEN conjunct1]
  have "rendered (elapse 500 (foldl step (handleSearch sampleState (js ''a''))
          (keystrokes [(100, (js ''ab'')), (150, (js ''abc''))])))
       = [getPaginatedProducts (sampleState\<lparr>searchTerm := (js ''abc''), currentPage := 1\<rparr>)]"
    using d unfolding t r by simp
  with a b show ?thesis by simp
qed

subsection \<open>Every state of a session\<close>

lemma frame_submit:
  "timers (handleFormSubmit s f now) = timers s
   \<and> debounceTimer (handleFormSubmit s f now) = debounceTimer s
   \<and> currentPage (handleFormSubmit s f now) = currentPage s"
  by (simp add: handleFormSubmit_def resetForm_def addProduct_def updateProduct_def
      renderProducts_def Let_def)

lemma timersOk_cong:
  assumes "timers a = timers b" "debounceTimer a = debounceTimer b"
  shows "timersOk a = timersOk b"
  using assms by (simp add: timersOk_def split: list.splits)

lemma timersOk_step:
  assumes "timersOk s"
  shows "timersOk (step s ev)"
proof (cases ev)
  case (Submit f now)
  have "timersOk (handleFormSubmit s f now) = timersOk s"
    by (rule timersOk_cong) (simp_all add: frame_submit)
  with assms Submit show ?thesis by simp
next
  case (Delete i c)
  have "timersOk (deleteProduct s i c) = timersOk s"
    by (rule timersOk_cong) (simp_all add: deleteProduct_def renderProducts_def)
  with assms Delete show ?thesis by simp
next
  case (Edit i)
  have "timersOk (editProduct s i) = timersOk s"
    by (rule timersOk_cong) (simp_all add: editProduct_def split: option.splits)
  with assms Edit show ?thesis by simp
next
  case CancelEdit
  have "timersOk (cancelEdit s) = timersOk s"
    by (rule timersOk_cong) (simp_all add: cancelEdit_def resetForm_def)
  with assms CancelEdit show ?thesis by simp
next
  case (Search tm)
  have "timersOk (handleSearch s tm)"
    by (simp add: timersOk_def timers_handleSearch [OF assms] handleSearch_frame)
  with Search show ?thesis by simp
next
  case (ChangePage n)
  have "timersOk (changePage s n) = timersOk s"
    by (rule timersOk_cong) (simp_all add: changePage_def renderProducts_def)
  with assms ChangePage show ?thesis by simp
next
  case (SwitchView v)
  have "timersOk (switchView s v) = timersOk s"
    by (rule timersOk_cong) (simp_all add: switchView_def renderProducts_def)
  with assms SwitchView show ?thesis by simp
next
  case (Elapse d)
  have "timersOk (elapse d s)"
    using assms
    by (cases "timers s")
      (auto simp: timersOk_def elapse_def Let_def searchTimeouts_frame)
  with Elapse show ?thesis by simp
qed

lemma page_step:
  assumes "1 \<le> currentPage s"
  shows "1 \<le> currentPage (step s ev)"
proof (cases ev)
  case (Submit f now)
  with assms show ?thesis by (simp add: frame_submit)
next
  case (Delete i c)
  with assms show ?thesis by (simp add: deleteProduct_def renderProducts_def)
next
  case (Edit i)
  with assms show ?thesis by (simp add: editProduct_def split: option.splits)
next
  case CancelEdit
  with assms show ?thesis by (simp add: cancelEdit_def resetForm_def)
next
  case (Search tm)
  with assms show ?thesis by (simp add: handleSearch_frame)
next
  case (ChangePage n)
  with assms show ?thesis by (simp add: changePage_def renderProducts_def)
next
  case (SwitchView v)
  with assms show ?thesis by (simp add: switchView_def renderProducts_def)
next
  case (Elapse d)
  with assms show ?thesis
    by (simp add: elapse_def Let_def currentPage_searchTimeouts)
qed

lemma ids_nonempty_step:
  assumes "[] \<notin> id' ` set (products s)"
  shows "[] \<notin> id' ` set (products (step s ev))"
proof
  assume "[] \<in> id' ` set (products (step s ev))"
  with ids_step [of s ev] have "[] \<in> id' ` set (products s) \<or> [] \<in> toString ` set (submitTime ev)"
    by auto
  with assms have "[] \<in> toString ` set (submitTime ev)" by simp
  then obtain t where "toString t = []" by (metis imageE)
  then show False by (simp add: toString_nonempty)
qed

lemma stateOk_step: "stateOk s \<Longrightarrow> stateOk (step s ev)"
  by (simp add: stateOk_def timersOk_step page_step ids_nonempty_step)

lemma stateOk_init: "stateOk init"
  by (simp add: stateOk_def timersOk_def init_def renderProducts_def)

lemma stateOk_foldl: "stateOk s \<Longrightarrow> stateOk (foldl step s evs)"
  by (induction evs arbitrary: s) (simp_all add: stateOk_step)

lemma stateOk_run: "stateOk (run evs)"
  unfolding run_def using stateOk_init by (rule stateOk_foldl)

end
